theory Spec2Isabelle
  imports Main "HOL-Library.Word"
begin

section \<open>Values of the compiler's type representation\<close>

text \<open>
  Modelled from the spec: the declarations of \<^verbatim>\<open>Pkg\<close>, \<^verbatim>\<open>Sym\<close>, \<^verbatim>\<open>Field\<close>,
  \<^verbatim>\<open>Type\<close> and \<^verbatim>\<open>Kind\<close> are not among the source files; the types below follow the
  data model of the spec and hold the fields that \<^verbatim>\<open>fmt.go\<close> reads.
  The formatter of \<^verbatim>\<open>cmd/compile/internal/types/fmt.go\<close> reads packages, symbols,
  fields and types through pointers. Packages and types are compared by pointer, so they
  live in a store and a pointer is an address or nil (\<open>None\<close>). Symbols and fields are
  only tested against nil and read, so a pointer to one is an optional value.
  A rune is an integer; \<^verbatim>\<open>bytes.Buffer\<close> is the byte string written so far; the
  \<^verbatim>\<open>sync.Pool\<close> of buffers is the list of the buffers it holds.
\<close>

type_synonym rune = int
type_synonym buffer = string
type_synonym pool = "buffer list"
type_synonym pkg_ptr = "nat option"
type_synonym type_ptr = "nat option"
type_synonym obj_ptr = "nat option"

abbreviation verb_v :: rune where "verb_v \<equiv> 118"
abbreviation verb_S :: rune where "verb_S \<equiv> 83"
abbreviation verb_L :: rune where "verb_L \<equiv> 76"

text \<open>
  Every way the Go code stops without returning: a nil dereference, an explicit
  \<^verbatim>\<open>panic\<close>, \<^verbatim>\<open>base.Fatalf\<close>, an accessor of \<^verbatim>\<open>Type\<close> applied to a type
  of another kind, and a recursion deeper than the fuel given to the model.
\<close>

datatype fault = NilDeref | Panic string | Fatalf string | BadType | OutOfFuel

type_synonym 'a res = "fault + 'a"

definition and_then :: "'a res \<Rightarrow> ('a \<Rightarrow> 'b res) \<Rightarrow> 'b res" where
  "and_then m f = (case m of Inl e \<Rightarrow> Inl e | Inr x \<Rightarrow> f x)"

datatype fmtMode = fmtGo | fmtDebug | fmtTypeID | fmtTypeIDName

datatype Kind =
    Txxx | TINT8 | TUINT8 | TINT16 | TUINT16 | TINT32 | TUINT32 | TINT64 | TUINT64
  | TINT | TUINT | TUINTPTR | TCOMPLEX64 | TCOMPLEX128 | TFLOAT32 | TFLOAT64 | TBOOL
  | TPTR | TFUNC | TSLICE | TARRAY | TSTRUCT | TCHAN | TMAP | TINTER | TFORW | TANY
  | TSTRING | TUNSAFEPTR | TTYPEPARAM | TUNION | TIDEAL | TNIL | TBLANK
  | TFUNCARGS | TCHANARGS | TSSA | TTUPLE | TRESULTS | NTYPE

datatype ChanDir = Crecv | Csend | Cboth

datatype Funarg = FunargNone | FunargRcvr | FunargParams | FunargResults | FunargTparams

record Pkg =
  pkg_Name :: string
  pkg_Path :: string
  pkg_Prefix :: string

record Sym =
  sym_Pkg :: pkg_ptr
  sym_Name :: string

record Field =
  fld_Sym :: "Sym option"
  fld_Embedded :: nat
  fld_Nname :: obj_ptr
  fld_Type :: type_ptr
  fld_Note :: string
  fld_IsDDD :: bool

text \<open>The kind-specific payload \<^verbatim>\<open>t.extra\<close> of a type.\<close>

datatype Extra =
    NoExtra
  | Map type_ptr type_ptr type_ptr type_ptr type_ptr
  | Forward
  | Func type_ptr type_ptr type_ptr type_ptr
  | Struct "Field option list" type_ptr Funarg
  | Interface
  | Ptr type_ptr
  | Chan type_ptr ChanDir
  | Tuple type_ptr type_ptr
  | Results "type_ptr list"
  | Array type_ptr int
  | Slice type_ptr
  | Typeparam
  | UnionT "(type_ptr \<times> bool) list"
  | SSAString string

record Type =
  kind :: Kind
  extra :: Extra
  sym :: "Sym option"
  vargen :: "32 word"
  allMethods :: "Field option list"

text \<open>
  The package-level variables the formatter reads, the two stores, and the functions of
  other packages it calls (\<^verbatim>\<open>strconv.Quote\<close>, \<^verbatim>\<open>IsExported\<close>, the generated
  \<^verbatim>\<open>Kind.String\<close>, \<^verbatim>\<open>fmt.Sprint\<close> of a field's name node, and \<^verbatim>\<open>md5.Sum\<close>,
  whose 16-byte array is a function of the index), which are parameters.
\<close>

record Env =
  BuiltinPkg :: pkg_ptr
  LocalPkg :: pkg_ptr
  BlankSym :: "Sym option"
  NumImport :: "string \<rightharpoonup> int"
  pkgs :: "nat \<Rightarrow> Pkg"
  types :: "nat \<Rightarrow> Type"
  Types :: "Kind \<Rightarrow> type_ptr"
  ByteType :: type_ptr
  RuneType :: type_ptr
  ErrorType :: type_ptr
  UntypedBool :: type_ptr
  UntypedString :: type_ptr
  UntypedInt :: type_ptr
  UntypedRune :: type_ptr
  UntypedFloat :: type_ptr
  UntypedComplex :: type_ptr
  Quote :: "string \<Rightarrow> string"
  IsExported :: "string \<Rightarrow> bool"
  KindString :: "Kind \<Rightarrow> string"
  SprintNname :: "obj_ptr \<Rightarrow> string"
  md5_Sum :: "string \<Rightarrow> nat \<Rightarrow> 8 word"

section \<open>Decimal and pointer formatting\<close>

definition digit_char :: "nat \<Rightarrow> char" where
  "digit_char d = ''0123456789abcdef'' ! d"

fun digits :: "nat \<Rightarrow> nat \<Rightarrow> string" where
  "digits base n =
     (if base < 2 \<or> n < base then [digit_char n]
      else digits base (n div base) @ [digit_char (n mod base)])"

declare digits.simps [simp del]

text \<open>
  Modelled from the spec: \<^verbatim>\<open>strconv\<close> and \<^verbatim>\<open>fmt\<close> are not among the source files.
  \<^verbatim>\<open>strconv.FormatInt(i, 10)\<close> and the verb \<^verbatim>\<open>%d\<close> give the decimal digits of an
  integer, with a minus sign when it is negative.
\<close>

definition FormatInt :: "int \<Rightarrow> string" where
  "FormatInt i = (if i < 0 then CHR ''-'' # digits 10 (nat (- i)) else digits 10 (nat i))"

text \<open>
  Modelled from the spec: the verb \<^verbatim>\<open>%p\<close> of \<^verbatim>\<open>fmt\<close>, which is not among the source
  files, prints an address in hexadecimal after \<^verbatim>\<open>0x\<close>.
\<close>

definition Sprintf_p :: "nat \<Rightarrow> string" where
  "Sprintf_p a = ''0x'' @ digits 16 a"

text \<open>The two bytes of the middle dot in UTF-8.\<close>

definition dot :: string where
  "dot = [CHR 0xC2, CHR 0xB7]"

definition isDigit :: "char \<Rightarrow> bool" where
  "isDigit c = (48 \<le> (of_char c :: nat) \<and> (of_char c :: nat) \<le> 57)"

section \<open>Symbols\<close>

definition HasPrefix :: "string \<Rightarrow> string \<Rightarrow> bool" where
  "HasPrefix s p = (length p \<le> length s \<and> take (length p) s = p)"

definition OrigSym :: "Env \<Rightarrow> Sym option \<Rightarrow> Sym option" where
  "OrigSym E s =
     (case s of
        None \<Rightarrow> None
      | Some sy \<Rightarrow>
          if length (sym_Name sy) > 1 \<and> sym_Name sy ! 0 = CHR ''~'' then
            (if sym_Name sy ! 1 = CHR ''r'' then None
             else if sym_Name sy ! 1 = CHR ''b'' then BlankSym E
             else Some sy)
          else if HasPrefix (sym_Name sy) ''.anon'' then None
          else Some sy)"

definition num_import :: "Env \<Rightarrow> string \<Rightarrow> int" where
  "num_import E n = (case NumImport E n of None \<Rightarrow> 0 | Some c \<Rightarrow> c)"

definition pkgqual :: "Env \<Rightarrow> pkg_ptr \<Rightarrow> rune \<Rightarrow> fmtMode \<Rightarrow> string res" where
  "pkgqual E pkg verb mode =
     (if verb \<noteq> verb_S then
        (case mode of
           fmtGo \<Rightarrow>
             if pkg = BuiltinPkg E \<or> pkg = LocalPkg E then Inr ''''
             else (case pkg of
                     None \<Rightarrow> Inl NilDeref
                   | Some a \<Rightarrow>
                       if pkg_Name (pkgs E a) \<noteq> '''' \<and> num_import E (pkg_Name (pkgs E a)) > 1
                       then Inr (Quote E (pkg_Path (pkgs E a)))
                       else Inr (pkg_Name (pkgs E a)))
         | fmtDebug \<Rightarrow>
             (case pkg of None \<Rightarrow> Inl NilDeref | Some a \<Rightarrow> Inr (pkg_Name (pkgs E a)))
         | fmtTypeIDName \<Rightarrow>
             (case pkg of None \<Rightarrow> Inl NilDeref | Some a \<Rightarrow> Inr (pkg_Name (pkgs E a)))
         | fmtTypeID \<Rightarrow>
             (case pkg of None \<Rightarrow> Inl NilDeref | Some a \<Rightarrow> Inr (pkg_Prefix (pkgs E a))))
      else Inr '''')"

text \<open>
  Modelled from the spec: \<^verbatim>\<open>sync.Pool\<close>, \<^verbatim>\<open>bytes.Buffer\<close> and \<^verbatim>\<open>InternString\<close>
  are not among the source files; the spec has a pool of reusable buffers, each held by
  one call at a time, and an interning cache that maps bytes to one shared string.
  \<^verbatim>\<open>fmtBufferPool.Get()\<close> hands out a buffer of the pool with whatever it held, or a
  new one; \<^verbatim>\<open>Put\<close> gives it back. \<^verbatim>\<open>InternString\<close> returns a string with the
  bytes it is given.
\<close>

definition pool_Get :: "pool \<Rightarrow> buffer \<times> pool" where
  "pool_Get p = (case p of [] \<Rightarrow> ([], []) | b # bs \<Rightarrow> (b, bs))"

definition pool_Put :: "buffer \<Rightarrow> pool \<Rightarrow> pool" where
  "pool_Put b p = b # p"

definition Reset :: "buffer \<Rightarrow> buffer" where
  "Reset b = []"

definition InternString :: "buffer \<Rightarrow> string" where
  "InternString b = b"

definition sconv :: "Env \<Rightarrow> pool \<Rightarrow> Sym option \<Rightarrow> rune \<Rightarrow> fmtMode \<Rightarrow> (string \<times> pool) res" where
  "sconv E p s verb mode =
     (if verb = verb_L then Inl (Panic ''linksymfmt'')
      else case s of
        None \<Rightarrow> Inr (''<S>'', p)
      | Some sy \<Rightarrow>
          and_then (pkgqual E (sym_Pkg sy) verb mode) (\<lambda>q.
            if q = '''' then Inr (sym_Name sy, p)
            else (case pool_Get p of (buf, p1) \<Rightarrow>
                    (let buf = Reset buf;
                         buf = buf @ q;
                         buf = buf @ ''.'';
                         buf = buf @ sym_Name sy
                     in Inr (InternString buf, pool_Put buf p1)))))"

definition symfmt :: "Env \<Rightarrow> buffer \<Rightarrow> Sym \<Rightarrow> rune \<Rightarrow> fmtMode \<Rightarrow> buffer res" where
  "symfmt E b sy verb mode =
     and_then (pkgqual E (sym_Pkg sy) verb mode) (\<lambda>q.
       Inr ((if q \<noteq> '''' then b @ q @ ''.'' else b) @ sym_Name sy))"

definition sconv2 :: "Env \<Rightarrow> buffer \<Rightarrow> Sym option \<Rightarrow> rune \<Rightarrow> fmtMode \<Rightarrow> buffer res" where
  "sconv2 E b s verb mode =
     (if verb = verb_L then Inl (Panic ''linksymfmt'')
      else case s of
        None \<Rightarrow> Inr (b @ ''<S>'')
      | Some sy \<Rightarrow> symfmt E b sy verb mode)"

section \<open>Accessors of a type\<close>

text \<open>
  Modelled from the spec: the methods of \<^verbatim>\<open>Type\<close> that the formatter calls are not
  among the source files. By the spec a type is a tagged variant with one payload for each
  kind; each method checks the kind of its receiver and reads the payload of that kind,
  and on another kind, or on a payload of another shape, it stops the compiler
  (\<open>BadType\<close>).
\<close>

definition deref :: "Env \<Rightarrow> type_ptr \<Rightarrow> Type res" where
  "deref E p = (case p of None \<Rightarrow> Inl NilDeref | Some a \<Rightarrow> Inr (types E a))"

definition Elem :: "Type \<Rightarrow> type_ptr res" where
  "Elem t =
     (if kind t = TPTR then (case extra t of Ptr e \<Rightarrow> Inr e | _ \<Rightarrow> Inl BadType)
      else if kind t = TARRAY then (case extra t of Array e n \<Rightarrow> Inr e | _ \<Rightarrow> Inl BadType)
      else if kind t = TSLICE then (case extra t of Slice e \<Rightarrow> Inr e | _ \<Rightarrow> Inl BadType)
      else if kind t = TCHAN then (case extra t of Chan e d \<Rightarrow> Inr e | _ \<Rightarrow> Inl BadType)
      else if kind t = TMAP then (case extra t of Map k e bk hm hi \<Rightarrow> Inr e | _ \<Rightarrow> Inl BadType)
      else Inl BadType)"

definition NumElem :: "Type \<Rightarrow> int res" where
  "NumElem t =
     (if kind t = TARRAY then (case extra t of Array e n \<Rightarrow> Inr n | _ \<Rightarrow> Inl BadType)
      else Inl BadType)"

definition ChanDir_of :: "Type \<Rightarrow> ChanDir res" where
  "ChanDir_of t =
     (if kind t = TCHAN then (case extra t of Chan e d \<Rightarrow> Inr d | _ \<Rightarrow> Inl BadType)
      else Inl BadType)"

definition MapType :: "Type \<Rightarrow> (type_ptr \<times> type_ptr \<times> type_ptr \<times> type_ptr \<times> type_ptr) res" where
  "MapType t =
     (if kind t = TMAP
      then (case extra t of Map k e bk hm hi \<Rightarrow> Inr (k, e, bk, hm, hi) | _ \<Rightarrow> Inl BadType)
      else Inl BadType)"

definition StructType :: "Type \<Rightarrow> (Field option list \<times> type_ptr \<times> Funarg) res" where
  "StructType t =
     (if kind t = TSTRUCT
      then (case extra t of Struct fs m fa \<Rightarrow> Inr (fs, m, fa) | _ \<Rightarrow> Inl BadType)
      else Inl BadType)"

definition FuncType :: "Type \<Rightarrow> (type_ptr \<times> type_ptr \<times> type_ptr \<times> type_ptr) res" where
  "FuncType t =
     (if kind t = TFUNC
      then (case extra t of Func rcv rs ps tps \<Rightarrow> Inr (rcv, rs, ps, tps) | _ \<Rightarrow> Inl BadType)
      else Inl BadType)"

definition Fields :: "Type \<Rightarrow> Field option list res" where
  "Fields t =
     (if kind t = TSTRUCT
      then (case extra t of Struct fs m fa \<Rightarrow> Inr fs | _ \<Rightarrow> Inl BadType)
      else Inl BadType)"

definition NumFields :: "Env \<Rightarrow> type_ptr \<Rightarrow> nat res" where
  "NumFields E p =
     and_then (deref E p) (\<lambda>s.
       if kind s = TRESULTS
       then (case extra s of Results tys \<Rightarrow> Inr (length tys) | _ \<Rightarrow> Inl BadType)
       else and_then (Fields s) (\<lambda>fs. Inr (length fs)))"

text \<open>\<^verbatim>\<open>s.Field(0)\<close> of a type pointer: its first field, itself a pointer.\<close>

definition Field0 :: "Env \<Rightarrow> type_ptr \<Rightarrow> Field option res" where
  "Field0 E p =
     and_then (deref E p) (\<lambda>s.
       and_then (Fields s) (\<lambda>fs.
         case fs of [] \<Rightarrow> Inl (Panic ''index out of range'') | f # rest \<Rightarrow> Inr f))"

definition Recv :: "Env \<Rightarrow> Type \<Rightarrow> Field option res" where
  "Recv E t =
     and_then (FuncType t) (\<lambda>(rcv, rs, ps, tps).
       and_then (NumFields E rcv) (\<lambda>n.
         if n = 0 then Inr None else Field0 E rcv))"

definition FieldType :: "Type \<Rightarrow> nat \<Rightarrow> type_ptr res" where
  "FieldType t i =
     (if kind t = TTUPLE
      then (case extra t of
              Tuple x y \<Rightarrow>
                (if i = 0 then Inr x else if i = 1 then Inr y
                 else Inl (Panic ''bad tuple index''))
            | _ \<Rightarrow> Inl BadType)
      else Inl BadType)"

definition BasicTypeNames :: "Kind \<Rightarrow> string" where
  "BasicTypeNames k =
     (case k of
        TINT \<Rightarrow> ''int'' | TUINT \<Rightarrow> ''uint'' | TINT8 \<Rightarrow> ''int8'' | TUINT8 \<Rightarrow> ''uint8''
      | TINT16 \<Rightarrow> ''int16'' | TUINT16 \<Rightarrow> ''uint16'' | TINT32 \<Rightarrow> ''int32''
      | TUINT32 \<Rightarrow> ''uint32'' | TINT64 \<Rightarrow> ''int64'' | TUINT64 \<Rightarrow> ''uint64''
      | TUINTPTR \<Rightarrow> ''uintptr'' | TFLOAT32 \<Rightarrow> ''float32'' | TFLOAT64 \<Rightarrow> ''float64''
      | TCOMPLEX64 \<Rightarrow> ''complex64'' | TCOMPLEX128 \<Rightarrow> ''complex128'' | TBOOL \<Rightarrow> ''bool''
      | TANY \<Rightarrow> ''any'' | TSTRING \<Rightarrow> ''string'' | TNIL \<Rightarrow> ''nil''
      | TIDEAL \<Rightarrow> ''untyped number'' | TBLANK \<Rightarrow> ''blank''
      | _ \<Rightarrow> '''')"

section \<open>The type renderer\<close>

text \<open>
  \<^verbatim>\<open>visited\<close> is a Go map from type pointers to buffer offsets, or the nil map.
  \<^verbatim>\<open>tconv2\<close> recurses through a store that may hold cycles, so the model counts the
  depth of the calls: \<open>tconv2 (Suc n)\<close> runs the body of the function once, with
  \<open>tconv2 n\<close> for each call the body makes, and \<open>tconv2 0\<close> is \<open>OutOfFuel\<close>.
  The pieces below take that inner renderer as \<open>rec\<close>. Each returns the buffer, the
  caller's view of \<^verbatim>\<open>visited\<close> and the pool.
\<close>

type_synonym visited = "(type_ptr \<rightharpoonup> nat) option"

type_synonym tconv2_fn =
  "pool \<Rightarrow> buffer \<Rightarrow> type_ptr \<Rightarrow> rune \<Rightarrow> fmtMode \<Rightarrow> visited \<Rightarrow> (buffer \<times> visited \<times> pool) res"

definition visited_lookup :: "visited \<Rightarrow> type_ptr \<Rightarrow> nat option" where
  "visited_lookup v t = (case v of None \<Rightarrow> None | Some m \<Rightarrow> m t)"

text \<open>\<^verbatim>\<open>tconv\<close>, and \<^verbatim>\<open>t.String()\<close> which is \<^verbatim>\<open>tconv(t, 0, fmtGo)\<close>.\<close>

definition tconv_with :: "tconv2_fn \<Rightarrow> pool \<Rightarrow> type_ptr \<Rightarrow> rune \<Rightarrow> fmtMode \<Rightarrow> (string \<times> pool) res" where
  "tconv_with rec p t verb mode =
     (case pool_Get p of (buf, p1) \<Rightarrow>
        and_then (rec p1 (Reset buf) t verb mode None) (\<lambda>(b, vis, p2).
          Inr (InternString b, pool_Put b p2)))"

definition String_with :: "tconv2_fn \<Rightarrow> pool \<Rightarrow> type_ptr \<Rightarrow> (string \<times> pool) res" where
  "String_with rec p t = tconv_with rec p t 0 fmtGo"

text \<open>The loop over \<^verbatim>\<open>t.extra.(*Results).Types\<close> (kind \<^verbatim>\<open>TRESULTS\<close>).\<close>

fun results_loop :: "tconv2_fn \<Rightarrow> nat \<Rightarrow> pool \<Rightarrow> buffer \<Rightarrow> type_ptr list \<Rightarrow> (buffer \<times> pool) res" where
  "results_loop rec i p b [] = Inr (b, p)"
| "results_loop rec i p b (et # tys) =
     (let b = (if i > 0 then b @ '','' else b) in
      and_then (String_with rec p et) (\<lambda>(s, p1).
        results_loop rec (Suc i) p1 (b @ s) tys))"

text \<open>The scan that finds a trailing middle dot and digits in a symbol's name.\<close>

fun scan_digits :: "string \<Rightarrow> nat \<Rightarrow> nat" where
  "scan_digits name 0 = 0"
| "scan_digits name (Suc i) = (if isDigit (name ! i) then scan_digits name i else Suc i)"

definition trim_sym :: "Sym \<Rightarrow> Sym" where
  "trim_sym sy =
     (let i = scan_digits (sym_Name sy) (length (sym_Name sy)) in
      if i \<ge> length dot \<and> take (length dot) (drop (i - length dot) (sym_Name sy)) = dot
      then \<lparr>sym_Pkg = sym_Pkg sy, sym_Name = take (i - length dot) (sym_Name sy)\<rparr>
      else sy)"

text \<open>Lines 340 to 371: a type that has a name prints as that name.\<close>

definition tconv2_named :: "Env \<Rightarrow> buffer \<Rightarrow> Type \<Rightarrow> Sym \<Rightarrow> rune \<Rightarrow> fmtMode \<Rightarrow> buffer res" where
  "tconv2_named E b ty sy verb mode =
     (let verb = (if verb \<noteq> verb_S then verb_v else verb);
          sy = (if mode \<noteq> fmtTypeID then trim_sym sy else sy)
      in and_then (sconv2 E b (Some sy) verb mode) (\<lambda>b.
           if mode = fmtTypeID \<and> vargen ty \<noteq> 0
           then Inr (b @ dot @ FormatInt (sint (vargen ty)))
           else Inr b))"

text \<open>Lines 373 to 393: the basic kinds.\<close>

definition basic_name :: "Env \<Rightarrow> type_ptr \<Rightarrow> Kind \<Rightarrow> string" where
  "basic_name E t k =
     (if t = UntypedBool E then ''untyped bool''
      else if t = UntypedString E then ''untyped string''
      else if t = UntypedInt E then ''untyped int''
      else if t = UntypedRune E then ''untyped rune''
      else if t = UntypedFloat E then ''untyped float''
      else if t = UntypedComplex E then ''untyped complex''
      else BasicTypeNames k)"

subsection \<open>Fields\<close>

definition fldconv_name :: "Env \<Rightarrow> pool \<Rightarrow> Field \<Rightarrow> rune \<Rightarrow> fmtMode \<Rightarrow> Funarg \<Rightarrow> (string \<times> pool) res" where
  "fldconv_name E p f verb mode funarg =
     (if verb \<noteq> verb_S then
        (let s = fld_Sym f;
             s = (if mode = fmtGo then OrigSym E s else s)
         in case s of
              None \<Rightarrow> Inr ('''', p)
            | Some sy \<Rightarrow>
                if fld_Embedded f = 0 then
                  (if funarg \<noteq> FunargNone then Inr (SprintNname E (fld_Nname f), p)
                   else if verb = verb_L then
                     (let name = sym_Name sy;
                          name = (if name = ''.F'' then ''F'' else name)
                      in if \<not> IsExported E name \<and> mode \<noteq> fmtTypeIDName
                         then sconv E p (Some sy) 0 mode
                         else Inr (name, p))
                   else sconv E p (Some sy) 0 mode)
                else Inr ('''', p))
      else Inr ('''', p))"

definition fldconv ::
  "tconv2_fn \<Rightarrow> Env \<Rightarrow> pool \<Rightarrow> buffer \<Rightarrow> Field option \<Rightarrow> rune \<Rightarrow> fmtMode \<Rightarrow> visited \<Rightarrow> Funarg
     \<Rightarrow> (buffer \<times> visited \<times> pool) res" where
  "fldconv rec E p b fo verb mode visited funarg =
     (case fo of
        None \<Rightarrow> Inr (b @ ''<T>'', visited, p)
      | Some f \<Rightarrow>
          and_then (fldconv_name E p f verb mode funarg) (\<lambda>(name, p).
            (let b = (if name \<noteq> '''' then b @ name @ '' '' else b) in
             and_then
               (if fld_IsDDD f then
                  and_then
                    (case fld_Type f of
                       None \<Rightarrow> Inr None
                     | Some a \<Rightarrow> Elem (types E a))
                    (\<lambda>et. rec p (b @ ''...'') et 0 mode visited)
                else rec p b (fld_Type f) 0 mode visited)
               (\<lambda>(b, visited, p).
                  if verb \<noteq> verb_S \<and> funarg = FunargNone \<and> fld_Note f \<noteq> ''''
                  then Inr (b @ '' '' @ Quote E (fld_Note f), visited, p)
                  else Inr (b, visited, p)))))"

text \<open>The loop over the fields of a parameter, result or type-parameter list.\<close>

fun funarg_fields ::
  "tconv2_fn \<Rightarrow> Env \<Rightarrow> nat \<Rightarrow> pool \<Rightarrow> buffer \<Rightarrow> Field option list \<Rightarrow> rune \<Rightarrow> fmtMode \<Rightarrow> visited
     \<Rightarrow> Funarg \<Rightarrow> (buffer \<times> visited \<times> pool) res" where
  "funarg_fields rec E i p b [] fieldVerb mode visited funarg = Inr (b, visited, p)"
| "funarg_fields rec E i p b (f # fs) fieldVerb mode visited funarg =
     and_then
       (fldconv rec E p (if i \<noteq> 0 then b @ '', '' else b) f fieldVerb mode visited funarg)
       (\<lambda>(b, visited, p). funarg_fields rec E (Suc i) p b fs fieldVerb mode visited funarg)"

text \<open>The loop over the fields of an ordinary struct.\<close>

fun struct_fields ::
  "tconv2_fn \<Rightarrow> Env \<Rightarrow> nat \<Rightarrow> pool \<Rightarrow> buffer \<Rightarrow> Field option list \<Rightarrow> fmtMode \<Rightarrow> visited
     \<Rightarrow> Funarg \<Rightarrow> (buffer \<times> visited \<times> pool) res" where
  "struct_fields rec E i p b [] mode visited funarg = Inr (b, visited, p)"
| "struct_fields rec E i p b (f # fs) mode visited funarg =
     and_then
       (fldconv rec E p ((if i \<noteq> 0 then b @ '';'' else b) @ '' '') f verb_L mode visited funarg)
       (\<lambda>(b, visited, p). struct_fields rec E (Suc i) p b fs mode visited funarg)"

text \<open>
  The loop over the methods of an interface. A method whose name is not exported
  changes \<^verbatim>\<open>mode\<close> for itself and for every method after it.
\<close>

fun inter_methods ::
  "tconv2_fn \<Rightarrow> Env \<Rightarrow> nat \<Rightarrow> pool \<Rightarrow> buffer \<Rightarrow> Field option list \<Rightarrow> fmtMode \<Rightarrow> visited
     \<Rightarrow> (buffer \<times> visited \<times> pool) res" where
  "inter_methods rec E i p b [] mode visited = Inr (b, visited, p)"
| "inter_methods rec E i p b (fo # fs) mode visited =
     (let b = (if i \<noteq> 0 then b @ '';'' else b);
          b = b @ '' ''
      in case fo of
           None \<Rightarrow> Inl NilDeref
         | Some f \<Rightarrow>
             and_then
               (case fld_Sym f of
                  None \<Rightarrow> Inr (b, mode)
                | Some sy \<Rightarrow>
                    if IsExported E (sym_Name sy)
                    then and_then (sconv2 E b (Some sy) verb_S mode) (\<lambda>b. Inr (b, mode))
                    else (let mode = (if mode \<noteq> fmtTypeIDName then fmtTypeID else mode)
                          in and_then (sconv2 E b (Some sy) verb_v mode) (\<lambda>b. Inr (b, mode))))
               (\<lambda>(b, mode).
                  and_then (rec p b (fld_Type f) verb_S mode visited) (\<lambda>(b, visited, p).
                    inter_methods rec E (Suc i) p b fs mode visited)))"

text \<open>The loop over the terms of a union.\<close>

fun union_terms ::
  "tconv2_fn \<Rightarrow> nat \<Rightarrow> pool \<Rightarrow> buffer \<Rightarrow> (type_ptr \<times> bool) list \<Rightarrow> fmtMode \<Rightarrow> visited
     \<Rightarrow> (buffer \<times> visited \<times> pool) res" where
  "union_terms rec i p b [] mode visited = Inr (b, visited, p)"
| "union_terms rec i p b ((elem, tilde) # ts) mode visited =
     (let b = (if i > 0 then b @ ''|'' else b);
          b = (if tilde then b @ ''~'' else b)
      in and_then (rec p b elem 0 mode visited) (\<lambda>(b, visited, p).
           union_terms rec (Suc i) p b ts mode visited))"

subsection \<open>The cases of the switch on the kind\<close>

definition tconv2_chan :: "tconv2_fn \<Rightarrow> Env \<Rightarrow> pool \<Rightarrow> buffer \<Rightarrow> Type \<Rightarrow> fmtMode \<Rightarrow> visited
     \<Rightarrow> (buffer \<times> visited \<times> pool) res" where
  "tconv2_chan rec E p b t mode visited =
     and_then (ChanDir_of t) (\<lambda>dir.
       and_then (Elem t) (\<lambda>el.
         if dir = Crecv then rec p (b @ ''<-chan '') el 0 mode visited
         else if dir = Csend then rec p (b @ ''chan<- '') el 0 mode visited
         else
           (let b = b @ ''chan '' in
            and_then
              (case el of
                 None \<Rightarrow> Inr False
               | Some ea \<Rightarrow>
                   if kind (types E ea) = TCHAN \<and> sym (types E ea) = None
                   then and_then (ChanDir_of (types E ea)) (\<lambda>d. Inr (d = Crecv))
                   else Inr False)
              (\<lambda>paren.
                 if paren then
                   and_then (rec p (b @ ''('') el 0 mode visited) (\<lambda>(b, visited, p).
                     Inr (b @ '')'', visited, p))
                 else rec p b el 0 mode visited))))"

definition tconv2_inter :: "tconv2_fn \<Rightarrow> Env \<Rightarrow> pool \<Rightarrow> buffer \<Rightarrow> Type \<Rightarrow> fmtMode \<Rightarrow> visited
     \<Rightarrow> (buffer \<times> visited \<times> pool) res" where
  "tconv2_inter rec E p b t mode visited =
     (if kind t = TINTER \<and> length (allMethods t) = 0
      then Inr (b @ ''interface {}'', visited, p)
      else
        and_then (inter_methods rec E 0 p (b @ ''interface {'') (allMethods t) mode visited)
          (\<lambda>(b, visited, p).
             (let b = (if length (allMethods t) \<noteq> 0 then b @ '' '' else b)
              in Inr (b @ ''}'', visited, p))))"

definition tconv2_func :: "tconv2_fn \<Rightarrow> Env \<Rightarrow> pool \<Rightarrow> buffer \<Rightarrow> Type \<Rightarrow> rune \<Rightarrow> fmtMode \<Rightarrow> visited
     \<Rightarrow> (buffer \<times> visited \<times> pool) res" where
  "tconv2_func rec E p b t verb mode visited =
     and_then
       (if verb = verb_S then Inr (b, visited, p)
        else
          and_then (Recv E t) (\<lambda>r.
            and_then
              (if r \<noteq> None then
                 and_then (FuncType t) (\<lambda>(rcv, rs, ps, tps).
                   and_then (rec p (b @ ''method'') rcv 0 mode visited) (\<lambda>(b, visited, p).
                     Inr (b @ '' '', visited, p)))
               else Inr (b, visited, p))
              (\<lambda>(b, visited, p). Inr (b @ ''func'', visited, p))))
       (\<lambda>(b, visited, p).
          and_then (FuncType t) (\<lambda>(rcv, rs, ps, tps).
            and_then (NumFields E tps) (\<lambda>ntp.
              and_then
                (if ntp > 0 then rec p b tps 0 mode visited else Inr (b, visited, p))
                (\<lambda>(b, visited, p).
                   and_then (rec p b ps 0 mode visited) (\<lambda>(b, visited, p).
                     and_then (NumFields E rs) (\<lambda>nres.
                       if nres = 0 then Inr (b, visited, p)
                       else if nres = 1 then
                         and_then (Field0 E rs) (\<lambda>f0.
                           case f0 of
                             None \<Rightarrow> Inl NilDeref
                           | Some f \<Rightarrow> rec p (b @ '' '') (fld_Type f) 0 mode visited)
                       else rec p (b @ '' '') rs 0 mode visited))))))"

definition tconv2_struct :: "tconv2_fn \<Rightarrow> Env \<Rightarrow> pool \<Rightarrow> buffer \<Rightarrow> nat \<Rightarrow> fmtMode \<Rightarrow> visited
     \<Rightarrow> (buffer \<times> visited \<times> pool) res" where
  "tconv2_struct rec E p b a mode visited =
     and_then (StructType (types E a)) (\<lambda>(fs, m, funarg).
       if m \<noteq> None then
         and_then (deref E m) (\<lambda>mty.
           and_then (MapType mty) (\<lambda>(key, el, bucket, hmap, hiter).
             and_then
               (if Some a = bucket then Inr (b @ ''map.bucket['')
                else if Some a = hmap then Inr (b @ ''map.hdr['')
                else if Some a = hiter then Inr (b @ ''map.iter['')
                else Inl (Fatalf ''unknown internal map type''))
               (\<lambda>b.
                  and_then (rec p b key 0 mode visited) (\<lambda>(b, visited, p).
                    rec p (b @ '']'') el 0 mode visited))))
       else if funarg \<noteq> FunargNone then
         (let open = (if funarg = FunargTparams then ''['' else ''('');
              close = (if funarg = FunargTparams then '']'' else '')'');
              fieldVerb = (if mode = fmtTypeID \<or> mode = fmtTypeIDName \<or> mode = fmtGo
                           then verb_S else verb_v)
          in and_then (funarg_fields rec E 0 p (b @ open) fs fieldVerb mode visited funarg)
               (\<lambda>(b, visited, p). Inr (b @ close, visited, p)))
       else
         and_then (struct_fields rec E 0 p (b @ ''struct {'') fs mode visited funarg)
           (\<lambda>(b, visited, p).
              (let b = (if length fs \<noteq> 0 then b @ '' '' else b)
               in Inr (b @ ''}'', visited, p))))"

definition tconv2_switch :: "tconv2_fn \<Rightarrow> Env \<Rightarrow> pool \<Rightarrow> buffer \<Rightarrow> nat \<Rightarrow> rune \<Rightarrow> fmtMode \<Rightarrow> visited
     \<Rightarrow> (buffer \<times> visited \<times> pool) res" where
  "tconv2_switch rec E p b a verb mode visited =
     (let t = types E a; k = kind t in
      if k = TPTR then
        and_then (Elem t) (\<lambda>el.
          if (mode = fmtTypeID \<or> mode = fmtTypeIDName) \<and> verb = verb_S
          then rec p (b @ ''*'') el verb_S mode visited
          else rec p (b @ ''*'') el verb_v mode visited)
      else if k = TARRAY then
        and_then (NumElem t) (\<lambda>n.
          and_then (Elem t) (\<lambda>el.
            rec p (b @ ''['' @ FormatInt n @ '']'') el 0 mode visited))
      else if k = TSLICE then
        and_then (Elem t) (\<lambda>el. rec p (b @ ''[]'') el 0 mode visited)
      else if k = TCHAN then tconv2_chan rec E p b t mode visited
      else if k = TMAP then
        and_then (MapType t) (\<lambda>(key, el, bucket, hmap, hiter).
          and_then (rec p (b @ ''map['') key 0 mode visited) (\<lambda>(b, visited, p).
            rec p (b @ '']'') el 0 mode visited))
      else if k = TINTER then tconv2_inter rec E p b t mode visited
      else if k = TFUNC then tconv2_func rec E p b t verb mode visited
      else if k = TSTRUCT then tconv2_struct rec E p b a mode visited
      else if k = TFORW then
        (case sym t of
           None \<Rightarrow> Inr (b @ ''undefined'', visited, p)
         | Some sy \<Rightarrow>
             and_then (sconv2 E (b @ ''undefined'' @ '' '') (Some sy) verb_v mode) (\<lambda>b.
               Inr (b, visited, p)))
      else if k = TUNSAFEPTR then Inr (b @ ''unsafe.Pointer'', visited, p)
      else if k = TTYPEPARAM then
        (case sym t of
           None \<Rightarrow> Inr (b @ ''tp'' @ Sprintf_p a, visited, p)
         | Some sy \<Rightarrow>
             and_then (sconv2 E b (Some sy) verb_v mode) (\<lambda>b. Inr (b, visited, p)))
      else if k = TUNION then
        (case extra t of
           UnionT ts \<Rightarrow> union_terms rec 0 p b ts mode visited
         | _ \<Rightarrow> Inl BadType)
      else if k = Txxx then Inr (b @ ''Txxx'', visited, p)
      else
        and_then (sconv2 E (b @ KindString E k @ '' <'') (sym t) verb_v mode) (\<lambda>b.
          Inr (b @ ''>'', visited, p)))"

subsection \<open>The body of \<^verbatim>\<open>tconv2\<close>\<close>

text \<open>
  From the test of the error type (line 335) on; \<open>t\<close> is the pointer the function
  holds there, which for the byte and rune aliases is \<^verbatim>\<open>Types[t.Kind()]\<close>.
  The deferred \<^verbatim>\<open>delete(visited, t)\<close> runs after the switch.
\<close>

definition tconv2_tail :: "tconv2_fn \<Rightarrow> Env \<Rightarrow> tconv2_fn" where
  "tconv2_tail rec E p b t verb mode visited =
     (if t = ErrorType E then Inr (b @ ''error'', visited, p)
      else case t of
        None \<Rightarrow> Inl NilDeref
      | Some a \<Rightarrow>
          (let ty = types E a in
           if verb \<noteq> verb_L \<and> sym ty \<noteq> None \<and> t \<noteq> Types E (kind ty) then
             (case sym ty of
                None \<Rightarrow> Inl NilDeref
              | Some sy \<Rightarrow>
                  and_then (tconv2_named E b ty sy verb mode) (\<lambda>b. Inr (b, visited, p)))
           else if BasicTypeNames (kind ty) \<noteq> '''' then
             Inr (b @ basic_name E t (kind ty), visited, p)
           else if mode = fmtDebug then
             rec p (b @ KindString E (kind ty) @ ''-'') t verb_v fmtGo visited
           else
             (let m = (case visited of None \<Rightarrow> Map.empty | Some m \<Rightarrow> m);
                  m = m(t \<mapsto> length b)
              in and_then (tconv2_switch rec E p b a verb mode (Some m)) (\<lambda>(b, vis, p).
                   Inr (b,
                        (case visited of
                           None \<Rightarrow> None
                         | Some m0 \<Rightarrow> map_option (\<lambda>m. m(t := None)) vis),
                        p)))))"

definition tconv2_body :: "tconv2_fn \<Rightarrow> Env \<Rightarrow> tconv2_fn" where
  "tconv2_body rec E p b t verb mode visited =
     (case visited_lookup visited t of
        Some off \<Rightarrow> Inr (b @ ''@'' @ FormatInt (int off), visited, p)
      | None \<Rightarrow>
          (case t of
             None \<Rightarrow> Inr (b @ ''<T>'', visited, p)
           | Some a \<Rightarrow>
               (let ty = types E a in
                if kind ty = TSSA then
                  (case extra ty of
                     SSAString s \<Rightarrow> Inr (b @ s, visited, p)
                   | _ \<Rightarrow> Inl BadType)
                else if kind ty = TTUPLE then
                  and_then (FieldType ty 0) (\<lambda>t0.
                    and_then (String_with rec p t0) (\<lambda>(s0, p).
                      and_then (FieldType ty 1) (\<lambda>t1.
                        and_then (String_with rec p t1) (\<lambda>(s1, p).
                          Inr (b @ s0 @ '','' @ s1, visited, p)))))
                else if kind ty = TRESULTS then
                  (case extra ty of
                     Results tys \<Rightarrow>
                       and_then (results_loop rec 0 p b tys) (\<lambda>(b, p). Inr (b, visited, p))
                   | _ \<Rightarrow> Inl BadType)
                else if t = ByteType E \<or> t = RuneType E then
                  (if mode = fmtTypeIDName \<or> mode = fmtTypeID
                   then tconv2_tail rec E p b (Types E (kind ty)) verb mode visited
                   else and_then (sconv2 E b (sym ty) verb_S mode) (\<lambda>b. Inr (b, visited, p)))
                else tconv2_tail rec E p b t verb mode visited)))"

primrec tconv2 :: "nat \<Rightarrow> Env \<Rightarrow> tconv2_fn" where
  "tconv2 0 E = (\<lambda>p b t verb mode visited. Inl OutOfFuel)"
| "tconv2 (Suc n) E = tconv2_body (tconv2 n E) E"

definition tconv :: "nat \<Rightarrow> Env \<Rightarrow> pool \<Rightarrow> type_ptr \<Rightarrow> rune \<Rightarrow> fmtMode \<Rightarrow> (string \<times> pool) res" where
  "tconv n E = tconv_with (tconv2 n E)"

definition NameString :: "nat \<Rightarrow> Env \<Rightarrow> pool \<Rightarrow> type_ptr \<Rightarrow> (string \<times> pool) res" where
  "NameString n E p t = tconv n E p t 0 fmtTypeIDName"

definition LinkString :: "nat \<Rightarrow> Env \<Rightarrow> pool \<Rightarrow> type_ptr \<Rightarrow> (string \<times> pool) res" where
  "LinkString n E p t = tconv n E p t 0 fmtTypeID"

section \<open>The type hash\<close>

text \<open>
  Modelled from the spec: \<^verbatim>\<open>encoding/binary\<close> is not among the source files.
  \<^verbatim>\<open>binary.LittleEndian.Uint32\<close> reads the first four bytes of a slice, the first
  byte being the least significant.
\<close>

definition Uint32 :: "8 word list \<Rightarrow> 32 word res" where
  "Uint32 bs =
     (case bs of
        b0 # b1 # b2 # b3 # rest \<Rightarrow>
          Inr (or (ucast b0)
                (or (push_bit 8 (ucast b1))
                   (or (push_bit 16 (ucast b2)) (push_bit 24 (ucast b3)))))
      | _ \<Rightarrow> Inl (Panic ''index out of range''))"

definition TypeHash :: "nat \<Rightarrow> Env \<Rightarrow> pool \<Rightarrow> type_ptr \<Rightarrow> (32 word \<times> pool) res" where
  "TypeHash n E p t =
     and_then (NameString n E p t) (\<lambda>(s, p1).
       (let h = md5_Sum E s in
        and_then (Uint32 [h 0, h 1, h 2, h 3]) (\<lambda>w. Inr (w, p1))))"

section \<open>Constants\<close>

text \<open>
  \<^verbatim>\<open>FmtConst\<close> reads a \<^verbatim>\<open>constant.Value\<close> only through the functions of
  \<^verbatim>\<open>go/constant\<close>, which are parameters over any type of values.
\<close>

datatype ConstKind = CUnknown | CBool | CString | CInt | CFloat | CComplex

record 'v Constant =
  const_Kind :: "'v \<Rightarrow> ConstKind"
  const_Real :: "'v \<Rightarrow> 'v"
  const_Imag :: "'v \<Rightarrow> 'v"
  const_Sign :: "'v \<Rightarrow> int"
  const_String :: "'v \<Rightarrow> string"

definition FmtConst :: "'v Constant \<Rightarrow> 'v \<Rightarrow> bool \<Rightarrow> string" where
  "FmtConst C v sharp =
     (if \<not> sharp \<and> const_Kind C v = CComplex then
        (let real = const_Real C v;
             imag = const_Imag C v;
             sre = const_Sign C real;
             re = (if sre \<noteq> 0 then const_String C real else '''');
             sim = const_Sign C imag;
             im = (if sim \<noteq> 0 then const_String C imag else '''')
         in if sre = 0 \<and> sim = 0 then ''0''
            else if sre = 0 then im @ ''i''
            else if sim = 0 then re
            else if sim < 0 then ''('' @ re @ im @ ''i)''
            else ''('' @ re @ ''+'' @ im @ ''i)'')
      else const_String C v)"

section \<open>A small compilation\<close>

text \<open>
  Two packages without a name clash (the universe at 0, the package being compiled at 1),
  two imported packages that share the name \<open>foo\<close> (2 and 3), and a store of types:
  the basic types and the aliases, then a named struct \<open>T\<close> at 10 whose single field
  \<open>next\<close> points back to it through the pointer type at 11. Further on: a tuple and
  a pointer that hold each other (12, 13); \<^verbatim>\<open>map[string]int\<close> with the three structs
  of its implementation and two structs that only claim it (14 to 18, and the named
  struct \<open>B\<close> at 23); the synthetic types (19 to 21); a type local to a function (22);
  an unnamed struct at 24 whose field has the named pointer type \<open>P\<close> at 25, with
  \<open>P\<close> a pointer to that struct; an unnamed struct at 26 whose field is the unnamed
  pointer to it at 27; and the same at 28 and 29 with a variadic field.
\<close>

definition ex_pkgs :: "nat \<Rightarrow> Pkg" where
  "ex_pkgs a =
     (if a = 0 then \<lparr>pkg_Name = '''', pkg_Path = ''go.builtin'', pkg_Prefix = ''go.builtin''\<rparr>
      else if a = 1 then \<lparr>pkg_Name = ''main'', pkg_Path = '''', pkg_Prefix = ''\"\"''\<rparr>
      else if a = 2 then \<lparr>pkg_Name = ''foo'', pkg_Path = ''a/foo'', pkg_Prefix = ''a/foo''\<rparr>
      else \<lparr>pkg_Name = ''foo'', pkg_Path = ''b/foo'', pkg_Prefix = ''b/foo''\<rparr>)"

definition basic :: "Kind \<Rightarrow> string \<Rightarrow> Type" where
  "basic k n =
     \<lparr>kind = k, extra = NoExtra, sym = Some \<lparr>sym_Pkg = Some 0, sym_Name = n\<rparr>,
      vargen = 0, allMethods = []\<rparr>"

definition unnamed :: "Kind \<Rightarrow> Extra \<Rightarrow> Type" where
  "unnamed k x = \<lparr>kind = k, extra = x, sym = None, vargen = 0, allMethods = []\<rparr>"

definition field :: "string \<Rightarrow> type_ptr \<Rightarrow> Field" where
  "field n t =
     \<lparr>fld_Sym = Some \<lparr>sym_Pkg = Some 1, sym_Name = n\<rparr>, fld_Embedded = 0,
      fld_Nname = None, fld_Type = t, fld_Note = '''', fld_IsDDD = False\<rparr>"

definition ex_types :: "nat \<Rightarrow> Type" where
  "ex_types a =
     (if a = 0 then basic TINT ''int''
      else if a = 1 then basic TSTRING ''string''
      else if a = 2 then basic TUINT8 ''uint8''
      else if a = 3 then basic TINT32 ''int32''
      else if a = 4 then basic TUINT8 ''byte''
      else if a = 5 then basic TINT32 ''rune''
      else if a = 6 then basic TINTER ''error''
      else if a = 7 then unnamed TIDEAL NoExtra
      else if a = 10 then
        \<lparr>kind = TSTRUCT, extra = Struct [Some (field ''next'' (Some 11))] None FunargNone,
         sym = Some \<lparr>sym_Pkg = Some 1, sym_Name = ''T''\<rparr>, vargen = 0, allMethods = []\<rparr>
      else if a = 11 then unnamed TPTR (Ptr (Some 10))
      else if a = 12 then unnamed TTUPLE (Tuple (Some 13) (Some 0))
      else if a = 13 then unnamed TPTR (Ptr (Some 12))
      else if a = 14 then unnamed TMAP (Map (Some 1) (Some 0) (Some 15) (Some 16) (Some 17))
      else if a = 15 then unnamed TSTRUCT (Struct [Some (field ''topbits'' (Some 2))] (Some 14) FunargNone)
      else if a = 16 then unnamed TSTRUCT (Struct [Some (field ''count'' (Some 0))] (Some 14) FunargNone)
      else if a = 17 then unnamed TSTRUCT (Struct [Some (field ''key'' (Some 1))] (Some 14) FunargNone)
      else if a = 18 then unnamed TSTRUCT (Struct [] (Some 14) FunargNone)
      else if a = 19 then unnamed TSSA (SSAString ''mem'')
      else if a = 20 then unnamed TTUPLE (Tuple (Some 11) (Some 19))
      else if a = 21 then unnamed TRESULTS (Results [Some 11, Some 0, Some 19])
      else if a = 22 then
        \<lparr>kind = TSTRUCT, extra = Struct [] None FunargNone,
         sym = Some \<lparr>sym_Pkg = Some 2, sym_Name = ''U'' @ dot @ ''12''\<rparr>, vargen = 3,
         allMethods = []\<rparr>
      else if a = 23 then
        \<lparr>kind = TSTRUCT, extra = Struct [] (Some 14) FunargNone,
         sym = Some \<lparr>sym_Pkg = Some 1, sym_Name = ''B''\<rparr>, vargen = 0, allMethods = []\<rparr>
      else if a = 24 then
        unnamed TSTRUCT (Struct [Some (field ''next'' (Some 25))] None FunargNone)
      else if a = 25 then
        \<lparr>kind = TPTR, extra = Ptr (Some 24),
         sym = Some \<lparr>sym_Pkg = Some 1, sym_Name = ''P''\<rparr>, vargen = 0, allMethods = []\<rparr>
      else if a = 26 then
        unnamed TSTRUCT (Struct [Some (field ''next'' (Some 27))] None FunargNone)
      else if a = 27 then unnamed TPTR (Ptr (Some 26))
      else if a = 28 then
        unnamed TSTRUCT
          (Struct [Some ((field ''rest'' (Some 29))\<lparr>fld_IsDDD := True\<rparr>)] None FunargNone)
      else if a = 29 then unnamed TPTR (Ptr (Some 28))
      else unnamed Txxx NoExtra)"

definition ex_Types :: "Kind \<Rightarrow> type_ptr" where
  "ex_Types k =
     (if k = TINT then Some 0 else if k = TSTRING then Some 1 else if k = TUINT8 then Some 2
      else if k = TINT32 then Some 3 else None)"

definition ascii_upper :: "string \<Rightarrow> bool" where
  "ascii_upper n = (case n of [] \<Rightarrow> False | c # cs \<Rightarrow> 65 \<le> (of_char c :: nat) \<and> (of_char c :: nat) \<le> 90)"

definition plain_quote :: "string \<Rightarrow> string" where
  "plain_quote s = ''\"'' @ s @ ''\"''"

definition ex_env :: Env where
  "ex_env =
     \<lparr>BuiltinPkg = Some 0, LocalPkg = Some 1,
      BlankSym = Some \<lparr>sym_Pkg = Some 1, sym_Name = ''_''\<rparr>,
      NumImport = [''foo'' \<mapsto> 2],
      pkgs = ex_pkgs, types = ex_types, Types = ex_Types,
      ByteType = Some 4, RuneType = Some 5, ErrorType = Some 6,
      UntypedBool = None, UntypedString = None, UntypedInt = Some 7, UntypedRune = None,
      UntypedFloat = None, UntypedComplex = None,
      Quote = plain_quote, IsExported = ascii_upper,
      KindString = (\<lambda>k. if k = TSTRUCT then ''STRUCT'' else if k = TPTR then ''PTR'' else ''KIND''),
      SprintNname = (\<lambda>n. ''<nil>''),
      md5_Sum = (\<lambda>s i. of_nat (length s + i))\<rparr>"

definition anon_env :: Env where
  "anon_env =
     ex_env\<lparr>NumImport := ['''' \<mapsto> 2],
            pkgs := (\<lambda>a. \<lparr>pkg_Name = '''', pkg_Path = ''a/b'', pkg_Prefix = ''a/b''\<rparr>)\<rparr>"

text \<open>
  Modelled from the spec: \<^verbatim>\<open>go/constant\<close> is not among the source files. The spec
  gives a complex constant by its real and imaginary parts; here the parts are integers,
  printed in decimal, and a complex value prints as \<^verbatim>\<open>(re + imi)\<close>.
\<close>

datatype ival = IntVal int | ComplexVal int int

definition int_constants :: "ival Constant" where
  "int_constants =
     \<lparr>const_Kind = (\<lambda>v. case v of IntVal n \<Rightarrow> CInt | ComplexVal r i \<Rightarrow> CComplex),
      const_Real = (\<lambda>v. case v of IntVal n \<Rightarrow> IntVal n | ComplexVal r i \<Rightarrow> IntVal r),
      const_Imag = (\<lambda>v. case v of IntVal n \<Rightarrow> IntVal 0 | ComplexVal r i \<Rightarrow> IntVal i),
      const_Sign = (\<lambda>v. case v of IntVal n \<Rightarrow> sgn n
                             | ComplexVal r i \<Rightarrow> (if r = 0 \<and> i = 0 then 0 else 1)),
      const_String = (\<lambda>v. case v of IntVal n \<Rightarrow> FormatInt n
                               | ComplexVal r i \<Rightarrow> ''('' @ FormatInt r @ '' + '' @ FormatInt i @ ''i)'')\<rparr>"

text \<open>
  What the claims say of a result list, in their own words: the display-mode string
  (\<^verbatim>\<open>String()\<close>) of each element type in turn, joined by commas.
\<close>

fun display_strings :: "nat \<Rightarrow> Env \<Rightarrow> pool \<Rightarrow> type_ptr list \<Rightarrow> (string list \<times> pool) res" where
  "display_strings n E p [] = Inr ([], p)"
| "display_strings n E p (t # ts) =
     and_then (tconv n E p t 0 fmtGo) (\<lambda>(s, p1).
       and_then (display_strings n E p1 ts) (\<lambda>(ss, p2). Inr (s # ss, p2)))"

fun comma_join :: "string list \<Rightarrow> string" where
  "comma_join [] = []"
| "comma_join (s # ss) = s @ (if ss = [] then [] else '','' @ comma_join ss)"

text \<open>
  A result without the pool it leaves, and the renderers whose result, the pool apart,
  does not depend on the pool they are given.
\<close>

definition no_pool :: "(buffer \<times> visited \<times> pool) res \<Rightarrow> (buffer \<times> visited) res" where
  "no_pool r = map_sum id (\<lambda>(b, v, p). (b, v)) r"

definition pool_free :: "tconv2_fn \<Rightarrow> bool" where
  "pool_free rec =
     (\<forall>p p' b t verb mode vis.
        no_pool (rec p b t verb mode vis) = no_pool (rec p' b t verb mode vis))"

text \<open>
  The words of the termination claim. The type pointers a type holds; a set of addresses
  that is closed under them (a type graph, with its cycles); a ranking of the
  graph that never increases along a pointer and decreases from a tuple or a result list,
  which render their elements through \<^verbatim>\<open>String()\<close>, to each element, so that no
  cycle passes through one of them; a compilation
  whose byte and rune aliases stand for basic types, as the universe declares them; the
  number of types of the graph that are not in \<^verbatim>\<open>visited\<close>; and a result that is not
  the end of the fuel and leaves \<^verbatim>\<open>visited\<close> as the caller had it.
\<close>

definition field_types :: "Field option list \<Rightarrow> type_ptr list" where
  "field_types fs = concat (map (\<lambda>fo. case fo of None \<Rightarrow> [] | Some f \<Rightarrow> [fld_Type f]) fs)"

definition refs :: "Type \<Rightarrow> type_ptr list" where
  "refs t =
     (case extra t of
        Map k e bk hm hi \<Rightarrow> [k, e, bk, hm, hi]
      | Func rcv rs ps tps \<Rightarrow> [rcv, rs, ps, tps]
      | Struct fs m fa \<Rightarrow> m # field_types fs
      | Ptr e \<Rightarrow> [e]
      | Chan e d \<Rightarrow> [e]
      | Tuple x y \<Rightarrow> [x, y]
      | Results ts \<Rightarrow> ts
      | Array e n \<Rightarrow> [e]
      | Slice e \<Rightarrow> [e]
      | UnionT ts \<Rightarrow> map fst ts
      | _ \<Rightarrow> [])
     @ field_types (allMethods t)"

definition okptr :: "nat set \<Rightarrow> type_ptr \<Rightarrow> bool" where
  "okptr R q = (case q of None \<Rightarrow> True | Some a \<Rightarrow> a \<in> R)"

definition closed :: "Env \<Rightarrow> nat set \<Rightarrow> bool" where
  "closed E R = (\<forall>a\<in>R. list_all (okptr R) (refs (types E a)))"

definition ranked :: "Env \<Rightarrow> nat set \<Rightarrow> (nat \<Rightarrow> nat) \<Rightarrow> bool" where
  "ranked E R lv =
     (\<forall>a\<in>R. list_all
        (\<lambda>q. case q of
               None \<Rightarrow> True
             | Some a' \<Rightarrow>
                 (if kind (types E a) = TTUPLE \<or> kind (types E a) = TRESULTS
                  then lv a' < lv a else lv a' \<le> lv a))
        (refs (types E a)))"

definition alias_basic :: "Env \<Rightarrow> bool" where
  "alias_basic E =
     list_all
       (\<lambda>t. case t of
              None \<Rightarrow> True
            | Some a \<Rightarrow>
                (case Types E (kind (types E a)) of
                   None \<Rightarrow> True
                 | Some a' \<Rightarrow> BasicTypeNames (kind (types E a')) \<noteq> ''''))
       [ByteType E, RuneType E]"

definition unvisited :: "nat set \<Rightarrow> visited \<Rightarrow> nat" where
  "unvisited R vis = card {a \<in> R. visited_lookup vis (Some a) = None}"

definition good :: "(buffer \<times> visited \<times> pool) res \<Rightarrow> visited \<Rightarrow> bool" where
  "good r v = (case r of Inl e \<Rightarrow> e \<noteq> OutOfFuel | Inr (b, v', p) \<Rightarrow> v' = v)"

text \<open>
  A compilation in which the byte alias is not what the universe declares: it is the
  pointer type at 30, and \<^verbatim>\<open>Types[TPTR]\<close> is the pointer type at 31, whose element is
  the type at 30.
\<close>

definition alias_env :: Env where
  "alias_env =
     ex_env\<lparr>types := (\<lambda>a. if a = 30 then unnamed TPTR (Ptr None)
                          else if a = 31 then unnamed TPTR (Ptr (Some 30))
                          else ex_types a),
            Types := (\<lambda>k. if k = TPTR then Some 31 else ex_Types k),
            ByteType := Some 30\<rparr>"

section \<open>Properties of the symbol renderer\<close>

lemma and_then_simps [simp]:
  "and_then (Inl e) f = Inl e"
  "and_then (Inr x) f = f x"
  by (simp_all add: and_then_def)

lemmas FormatInt_eval = FormatInt_def digits.simps digit_char_def

text \<open>
  C4 (amended). For a package \<open>p\<close> that is not nil, \<^verbatim>\<open>pkgqual\<close> returns: the empty
  string when the verb is \<^verbatim>\<open>'S'\<close>, in every mode; otherwise, in display mode, the
  empty string for the builtin package and the package being compiled, the quoted import
  path when the name of \<open>p\<close> is not empty and \<^verbatim>\<open>NumImport\<close> counts it more than once,
  and the name of \<open>p\<close> in every other case; in debug and name-string mode the name of
  \<open>p\<close>; in link-identity mode the link prefix of \<open>p\<close>.
\<close>

theorem pkgqual_package:
  "pkgqual E (Some a) verb mode =
     Inr (if verb = verb_S then ''''
          else case mode of
            fmtGo \<Rightarrow>
              if Some a = BuiltinPkg E \<or> Some a = LocalPkg E then ''''
              else if pkg_Name (pkgs E a) \<noteq> '''' \<and> num_import E (pkg_Name (pkgs E a)) > 1
              then Quote E (pkg_Path (pkgs E a))
              else pkg_Name (pkgs E a)
          | fmtDebug \<Rightarrow> pkg_Name (pkgs E a)
          | fmtTypeIDName \<Rightarrow> pkg_Name (pkgs E a)
          | fmtTypeID \<Rightarrow> pkg_Prefix (pkgs E a))"
  by (cases mode) (simp_all add: pkgqual_def)

text \<open>
  The two packages named \<open>foo\<close> print with their quoted paths in display mode; the
  package being compiled prints bare there and by its name in debug mode.
\<close>

theorem pkgqual_package_witness:
  "pkgqual ex_env (Some 2) verb_v fmtGo = Inr ''\"a/foo\"''
   \<and> pkgqual ex_env (Some 3) verb_v fmtGo = Inr ''\"b/foo\"''
   \<and> pkgqual ex_env (Some 2) verb_S fmtGo = Inr ''''
   \<and> pkgqual ex_env (Some 1) verb_v fmtGo = Inr ''''
   \<and> pkgqual ex_env (Some 1) verb_v fmtDebug = Inr ''main''
   \<and> pkgqual ex_env (Some 3) verb_v fmtTypeIDName = Inr ''foo''
   \<and> pkgqual ex_env (Some 3) verb_v fmtTypeID = Inr ''b/foo''"
  using pkgqual_package [of ex_env 2 verb_v fmtGo] pkgqual_package [of ex_env 3 verb_v fmtGo]
    pkgqual_package [of ex_env 2 verb_S fmtGo]
    pkgqual_package [of ex_env 1 verb_v fmtGo] pkgqual_package [of ex_env 1 verb_v fmtDebug]
    pkgqual_package [of ex_env 3 verb_v fmtTypeIDName] pkgqual_package [of ex_env 3 verb_v fmtTypeID]
  by (simp add: ex_env_def ex_pkgs_def num_import_def plain_quote_def)

text \<open>
  C4 as stated fails where the name of the package is empty: \<^verbatim>\<open>NumImport\<close> counts the
  empty name twice, the package is neither the builtin nor the local one, and the
  qualifier in display mode is the empty name, not the quoted path \<^verbatim>\<open>"a/b"\<close>.
\<close>

theorem pkgqual_empty_name_counterexample:
  "num_import anon_env (pkg_Name (pkgs anon_env 5)) = 2
   \<and> Some 5 \<noteq> BuiltinPkg anon_env \<and> Some 5 \<noteq> LocalPkg anon_env
   \<and> Quote anon_env (pkg_Path (pkgs anon_env 5)) = ''\"a/b\"''
   \<and> pkgqual anon_env (Some 5) verb_v fmtGo = Inr ''''"
  by (simp add: anon_env_def ex_env_def pkgqual_def num_import_def plain_quote_def)

text \<open>
  C9 (amended). For the nil package \<^verbatim>\<open>pkgqual\<close> returns the empty string when the
  verb is \<^verbatim>\<open>'S'\<close>, and in display mode when \<^verbatim>\<open>BuiltinPkg\<close> or \<^verbatim>\<open>LocalPkg\<close>
  is itself nil; with any other verb and mode it reads a field of the nil package and
  the program stops with a nil dereference.
\<close>

theorem pkgqual_nil:
  "pkgqual E None verb mode =
     (if verb = verb_S then Inr ''''
      else if mode = fmtGo \<and> (BuiltinPkg E = None \<or> LocalPkg E = None) then Inr ''''
      else Inl NilDeref)"
  by (cases mode) (auto simp add: pkgqual_def)

theorem pkgqual_nil_witness:
  "pkgqual ex_env None verb_S fmtDebug = Inr ''''
   \<and> pkgqual (ex_env\<lparr>LocalPkg := None\<rparr>) None verb_v fmtGo = Inr ''''
   \<and> pkgqual ex_env None verb_v fmtTypeID = Inl NilDeref"
  using pkgqual_nil [of ex_env verb_S fmtDebug]
    pkgqual_nil [of "ex_env\<lparr>LocalPkg := None\<rparr>" verb_v fmtGo]
    pkgqual_nil [of ex_env verb_v fmtTypeID]
  by (simp add: ex_env_def)

text \<open>
  C9 as stated fails: with the nil package and the verb \<^verbatim>\<open>'v'\<close>, \<^verbatim>\<open>'L'\<close> or 0 the
  qualifier faults in debug, display, link-identity and name-string mode.
\<close>

theorem pkgqual_nil_counterexample:
  "pkgqual ex_env None verb_v fmtDebug = Inl NilDeref
   \<and> pkgqual ex_env None verb_v fmtGo = Inl NilDeref
   \<and> pkgqual ex_env None 0 fmtTypeID = Inl NilDeref
   \<and> pkgqual ex_env None verb_L fmtTypeIDName = Inl NilDeref"
  by (simp add: ex_env_def pkgqual_def)

section \<open>Null arguments\<close>




section \<open>Properties of the constant renderer\<close>

text \<open>
  C6. With \<^verbatim>\<open>sharp\<close> set, or for a value that is not complex, \<^verbatim>\<open>FmtConst\<close> returns
  the value's own string. For a complex value without \<^verbatim>\<open>sharp\<close>, by the signs of
  the real part \<open>re\<close> and the imaginary part \<open>im\<close>: \<^verbatim>\<open>0\<close> when both are zero;
  \<open>im\<close> then \<^verbatim>\<open>i\<close> when only \<open>im\<close> is not zero; \<open>re\<close> when only \<open>re\<close> is not zero;
  \<^verbatim>\<open>(\<close> \<open>re\<close> \<open>im\<close> \<^verbatim>\<open>i)\<close> when both are not zero and \<open>im\<close> is negative, the minus
  sign being that of the string of \<open>im\<close>; \<^verbatim>\<open>(\<close> \<open>re\<close> \<^verbatim>\<open>+\<close> \<open>im\<close> \<^verbatim>\<open>i)\<close> when both
  are not zero and \<open>im\<close> is positive.
\<close>

theorem FmtConst_cases:
  "(sharp \<or> const_Kind C v \<noteq> CComplex \<longrightarrow> FmtConst C v sharp = const_String C v)
   \<and> (\<not> sharp \<and> const_Kind C v = CComplex \<longrightarrow>
        (let re = const_Real C v; im = const_Imag C v in
           (const_Sign C re = 0 \<and> const_Sign C im = 0 \<longrightarrow> FmtConst C v sharp = ''0'')
         \<and> (const_Sign C re = 0 \<and> const_Sign C im \<noteq> 0 \<longrightarrow>
              FmtConst C v sharp = const_String C im @ ''i'')
         \<and> (const_Sign C re \<noteq> 0 \<and> const_Sign C im = 0 \<longrightarrow>
              FmtConst C v sharp = const_String C re)
         \<and> (const_Sign C re \<noteq> 0 \<and> const_Sign C im < 0 \<longrightarrow>
              FmtConst C v sharp = ''('' @ const_String C re @ const_String C im @ ''i'' @ '')'')
         \<and> (const_Sign C re \<noteq> 0 \<and> const_Sign C im > 0 \<longrightarrow>
              FmtConst C v sharp = ''('' @ const_String C re @ ''+'' @ const_String C im @ ''i'' @ '')'')))"
  by (auto simp add: FmtConst_def Let_def)

text \<open>The examples of the spec, on constants with integer parts.\<close>

theorem FmtConst_cases_witness:
  "FmtConst int_constants (ComplexVal 0 0) False = ''0''
   \<and> FmtConst int_constants (ComplexVal 0 3) False = ''3i''
   \<and> FmtConst int_constants (ComplexVal 2 0) False = ''2''
   \<and> FmtConst int_constants (ComplexVal 2 (- 3)) False = ''(2-3i)''
   \<and> FmtConst int_constants (ComplexVal 2 3) False = ''(2+3i)''
   \<and> FmtConst int_constants (ComplexVal 2 3) True = ''(2 + 3i)''
   \<and> FmtConst int_constants (IntVal 7) False = ''7''"
  using FmtConst_cases [of False int_constants "ComplexVal 0 0"]
    FmtConst_cases [of False int_constants "ComplexVal 0 3"]
    FmtConst_cases [of False int_constants "ComplexVal 2 0"]
    FmtConst_cases [of False int_constants "ComplexVal 2 (- 3)"]
    FmtConst_cases [of False int_constants "ComplexVal 2 3"]
    FmtConst_cases [of True int_constants "ComplexVal 2 3"]
    FmtConst_cases [of False int_constants "IntVal 7"]
  by (simp add: int_constants_def FormatInt_eval FmtConst_def)

section \<open>Properties of the type renderer\<close>

lemma and_then_assoc: "and_then (and_then m f) g = and_then m (\<lambda>x. and_then (f x) g)"
  by (cases m) simp_all

lemmas render_defs =
  tconv2_body_def tconv2_tail_def tconv2_switch_def tconv2_named_def tconv2_chan_def
  tconv2_inter_def tconv2_func_def tconv2_struct_def fldconv_def fldconv_name_def
  tconv_def tconv_with_def String_with_def visited_lookup_def basic_name_def BasicTypeNames_def
  sconv_def sconv2_def symfmt_def pkgqual_def num_import_def OrigSym_def HasPrefix_def
  pool_Get_def pool_Put_def Reset_def InternString_def
  deref_def Elem_def NumElem_def ChanDir_of_def MapType_def StructType_def FuncType_def
  Fields_def NumFields_def Field0_def Recv_def FieldType_def

lemmas ex_defs =
  ex_env_def ex_types_def ex_pkgs_def ex_Types_def basic_def unnamed_def field_def
  ascii_upper_def plain_quote_def

subsection \<open>The scan for the suffix of a local type's name\<close>

lemma scan_digits_le: "scan_digits name k \<le> k"
  by (induction k) auto

lemma scan_digits_digits: "scan_digits name k \<le> j \<Longrightarrow> j < k \<Longrightarrow> isDigit (name ! j)"
proof (induction k)
  case 0
  then show ?case by simp
next
  case (Suc k)
  then show ?case
    by (cases "isDigit (name ! k)") (auto simp: less_Suc_eq)
qed

lemma scan_digits_prefix: "k \<le> length xs \<Longrightarrow> scan_digits (xs @ ys) k = scan_digits xs k"
  by (induction k) (auto simp: nth_append)

lemma scan_digits_skip:
  "list_all isDigit ds \<Longrightarrow> scan_digits (xs @ ds) (length xs + length ds) = scan_digits xs (length xs)"
proof (induction ds rule: rev_induct)
  case Nil
  then show ?case by simp
next
  case (snoc d ds)
  have "scan_digits (xs @ ds @ [d]) (length xs + length ds) = scan_digits (xs @ ds) (length xs + length ds)"
    using scan_digits_prefix [of "length xs + length ds" "xs @ ds" "[d]"] by simp
  with snoc show ?case
    by (simp add: nth_append)
qed

lemma not_digit_dot: "\<not> isDigit (CHR 0xB7)"
  by (simp add: isDigit_def)

lemma scan_digits_dot:
  assumes "list_all isDigit ds"
  shows "scan_digits (base @ dot @ ds) (length (base @ dot @ ds)) = length base + 2"
proof -
  have "scan_digits ((base @ dot) @ ds) (length (base @ dot) + length ds)
          = scan_digits (base @ dot) (length (base @ dot))"
    using assms by (rule scan_digits_skip)
  moreover have "scan_digits (base @ dot) (length (base @ dot)) = length base + 2"
    by (simp add: dot_def nth_append not_digit_dot)
  ultimately show ?thesis by (simp add: add.assoc)
qed

lemma trim_sym_suffix:
  assumes "list_all isDigit ds"
  shows "trim_sym \<lparr>sym_Pkg = q, sym_Name = base @ dot @ ds\<rparr> = \<lparr>sym_Pkg = q, sym_Name = base\<rparr>"
  using scan_digits_dot [OF assms, of base]
  by (simp add: trim_sym_def Let_def) (simp add: dot_def)

lemma trim_sym_other:
  assumes "trim_sym sy \<noteq> sy"
  shows "\<exists>base ds. list_all isDigit ds \<and> sym_Name sy = base @ dot @ ds"
proof -
  define name where "name = sym_Name sy"
  define i where "i = scan_digits name (length name)"
  from assms have ge: "i \<ge> length dot"
    and eq: "take (length dot) (drop (i - length dot) name) = dot"
    by (auto simp: trim_sym_def Let_def i_def name_def split: if_splits)
  have le: "i \<le> length name"
    unfolding i_def by (rule scan_digits_le)
  have dig: "list_all isDigit (drop i name)"
    unfolding list_all_length
  proof (intro allI impI)
    fix j assume "j < length (drop i name)"
    then have "i + j < length name" by simp
    then have "isDigit (name ! (i + j))"
      using scan_digits_digits [of name "length name" "i + j"] by (simp add: i_def)
    then show "isDigit (drop i name ! j)"
      using le by simp
  qed
  have "name = take (i - length dot) name @ take (length dot) (drop (i - length dot) name) @ drop i name"
    using ge le
    by (metis add.commute append_take_drop_id drop_drop le_add_diff_inverse)
  then have "name = take (i - length dot) name @ dot @ drop i name"
    using eq by simp
  with dig show ?thesis
    unfolding name_def by blast
qed

subsection \<open>Named types\<close>

text \<open>
  C3 (amended). Let \<open>t\<close> be a type that is not yet in \<^verbatim>\<open>visited\<close>, is not of a
  synthetic kind, is not the byte alias, the rune alias or the error type, carries a
  symbol and is not \<^verbatim>\<open>Types[t.Kind()]\<close>, and let the verb not be \<^verbatim>\<open>'L'\<close>. Then
  \<^verbatim>\<open>tconv2\<close> writes what the symbol renderer \<^verbatim>\<open>sconv2\<close> writes (with the verb
  \<^verbatim>\<open>'S'\<close> if that was the verb, else \<^verbatim>\<open>'v'\<close>) and returns with \<^verbatim>\<open>visited\<close> and
  the pool as they were. In every mode but link-identity the symbol is first trimmed; in
  link-identity mode it is kept, and the middle dot with the decimal \<^verbatim>\<open>vargen\<close> is
  appended when \<^verbatim>\<open>vargen\<close> is not zero. Trimming removes a trailing middle dot followed
  by decimal digits (none is enough), and changes no other name.
\<close>

theorem tconv2_named_type:
  "(visited_lookup vis (Some a) = None
    \<and> kind (types E a) \<notin> {TSSA, TTUPLE, TRESULTS}
    \<and> Some a \<notin> {ByteType E, RuneType E, ErrorType E}
    \<and> verb \<noteq> verb_L \<and> sym (types E a) = Some sy \<and> Some a \<noteq> Types E (kind (types E a))
    \<longrightarrow> tconv2 (Suc n) E p b (Some a) verb mode vis =
          and_then
            (sconv2 E b (Some (if mode = fmtTypeID then sy else trim_sym sy))
               (if verb = verb_S then verb_S else verb_v) mode)
            (\<lambda>b'. Inr (if mode = fmtTypeID \<and> vargen (types E a) \<noteq> 0
                        then b' @ dot @ FormatInt (sint (vargen (types E a))) else b',
                        vis, p)))
   \<and> (list_all isDigit ds \<longrightarrow>
        trim_sym \<lparr>sym_Pkg = q, sym_Name = base @ dot @ ds\<rparr> = \<lparr>sym_Pkg = q, sym_Name = base\<rparr>)
   \<and> (trim_sym sy' \<noteq> sy' \<longrightarrow>
        (\<exists>base' ds'. list_all isDigit ds' \<and> sym_Name sy' = base' @ dot @ ds'))"
proof (intro conjI impI)
  assume h: "visited_lookup vis (Some a) = None
    \<and> kind (types E a) \<notin> {TSSA, TTUPLE, TRESULTS}
    \<and> Some a \<notin> {ByteType E, RuneType E, ErrorType E}
    \<and> verb \<noteq> verb_L \<and> sym (types E a) = Some sy \<and> Some a \<noteq> Types E (kind (types E a))"
  then show "tconv2 (Suc n) E p b (Some a) verb mode vis =
          and_then
            (sconv2 E b (Some (if mode = fmtTypeID then sy else trim_sym sy))
               (if verb = verb_S then verb_S else verb_v) mode)
            (\<lambda>b'. Inr (if mode = fmtTypeID \<and> vargen (types E a) \<noteq> 0
                        then b' @ dot @ FormatInt (sint (vargen (types E a))) else b',
                        vis, p))"
    by (cases "sconv2 E b (Some (if mode = fmtTypeID then sy else trim_sym sy))
               (if verb = verb_S then verb_S else verb_v) mode")
       (auto simp add: tconv2_body_def tconv2_tail_def tconv2_named_def Let_def)
next
  assume "list_all isDigit ds"
  then show "trim_sym \<lparr>sym_Pkg = q, sym_Name = base @ dot @ ds\<rparr> = \<lparr>sym_Pkg = q, sym_Name = base\<rparr>"
    by (rule trim_sym_suffix)
next
  assume "trim_sym sy' \<noteq> sy'"
  then show "\<exists>base' ds'. list_all isDigit ds' \<and> sym_Name sy' = base' @ dot @ ds'"
    by (rule trim_sym_other)
qed

text \<open>
  The type \<open>U\<close> declared in a function of package \<open>foo\<close>, with the suffix 12 in its
  name and \<^verbatim>\<open>vargen\<close> 3: link-identity mode keeps the suffix and adds the counter,
  display mode trims the suffix and quotes the path of the clashing package.
\<close>

theorem tconv2_named_type_witness:
  "tconv2 (Suc 0) ex_env [] ''x'' (Some 22) verb_v fmtTypeID None
     = Inr (''xa/foo.U'' @ dot @ ''12'' @ dot @ ''3'', None, [])
   \<and> tconv2 (Suc 0) ex_env [] ''x'' (Some 22) 0 fmtGo None = Inr (''x\"a/foo\".U'', None, [])
   \<and> tconv2 (Suc 0) ex_env [] ''x'' (Some 22) verb_S fmtDebug None = Inr (''xU'', None, [])
   \<and> trim_sym \<lparr>sym_Pkg = Some 2, sym_Name = ''U'' @ dot @ ''12''\<rparr> = \<lparr>sym_Pkg = Some 2, sym_Name = ''U''\<rparr>
   \<and> (\<exists>base' ds'. list_all isDigit ds' \<and> ''U'' @ dot @ ''12'' = base' @ dot @ ds')"
  using
    tconv2_named_type [where vis = None and a = 22 and E = ex_env and verb = verb_v
      and mode = fmtTypeID and n = 0 and p = "[]" and b = "''x''"
      and sy = "\<lparr>sym_Pkg = Some 2, sym_Name = ''U'' @ dot @ ''12''\<rparr>"
      and ds = "''12''" and q = "Some 2" and base = "''U''"
      and sy' = "\<lparr>sym_Pkg = Some 2, sym_Name = ''U'' @ dot @ ''12''\<rparr>"]
    tconv2_named_type [where vis = None and a = 22 and E = ex_env and verb = 0
      and mode = fmtGo and n = 0 and p = "[]" and b = "''x''"
      and sy = "\<lparr>sym_Pkg = Some 2, sym_Name = ''U'' @ dot @ ''12''\<rparr>"
      and ds = "''12''" and q = "Some 2" and base = "''U''"
      and sy' = "\<lparr>sym_Pkg = Some 2, sym_Name = ''U'' @ dot @ ''12''\<rparr>"]
    tconv2_named_type [where vis = None and a = 22 and E = ex_env and verb = verb_S
      and mode = fmtDebug and n = 0 and p = "[]" and b = "''x''"
      and sy = "\<lparr>sym_Pkg = Some 2, sym_Name = ''U'' @ dot @ ''12''\<rparr>"
      and ds = "''12''" and q = "Some 2" and base = "''U''"
      and sy' = "\<lparr>sym_Pkg = Some 2, sym_Name = ''U'' @ dot @ ''12''\<rparr>"]
  by (simp add: render_defs ex_defs Let_def trim_sym_def dot_def isDigit_def FormatInt_eval)

text \<open>
  C3 as stated fails in two places. The named struct \<open>T\<close> carries a symbol and is not a
  basic singleton, but once it is in \<^verbatim>\<open>visited\<close> (as when \<^verbatim>\<open>%L\<close> of \<open>T\<close> reaches
  \<open>T\<close> again through its field) the verb \<^verbatim>\<open>'v'\<close> gives the back reference, where the
  symbol renderer would write \<open>T\<close>. The byte alias carries the symbol \<open>byte\<close> and is
  not \<^verbatim>\<open>Types[TUINT8]\<close>, but in name-string mode it renders as \<open>uint8\<close>.
\<close>

theorem tconv2_named_type_counterexample:
  "tconv2 (Suc 0) ex_env [] ''struct { next *'' (Some 10) verb_v fmtGo
       (Some [Some 10 \<mapsto> 0, Some 11 \<mapsto> 14])
     = Inr (''struct { next *@0'', Some [Some 10 \<mapsto> 0, Some 11 \<mapsto> 14], [])
   \<and> sym (types ex_env 10) = Some \<lparr>sym_Pkg = Some 1, sym_Name = ''T''\<rparr>
   \<and> Types ex_env (kind (types ex_env 10)) \<noteq> Some 10
   \<and> sconv2 ex_env ''struct { next *'' (sym (types ex_env 10)) verb_v fmtGo
       = Inr ''struct { next *T''
   \<and> tconv (Suc 0) ex_env [] (Some 4) verb_v fmtTypeIDName = Inr (''uint8'', [''uint8''])
   \<and> sym (types ex_env 4) = Some \<lparr>sym_Pkg = Some 0, sym_Name = ''byte''\<rparr>
   \<and> Types ex_env (kind (types ex_env 4)) \<noteq> Some 4"
  by (simp add: render_defs ex_defs Let_def FormatInt_eval)

subsection \<open>The structs of a map's implementation\<close>

text \<open>
  C5 (amended). Let \<open>t\<close> be a struct type whose \<^verbatim>\<open>Map\<close> field points to a map type
  \<open>m\<close>, and let \<open>t\<close> not be in \<^verbatim>\<open>visited\<close> and be none of the byte alias, the rune
  alias and the error type.

  \<^item> In a mode other than debug, when \<open>t\<close> is printed by structure (the verb is
    \<^verbatim>\<open>'L'\<close>, or \<open>t\<close> has no symbol, or \<open>t\<close> is \<^verbatim>\<open>Types[TSTRUCT]\<close>): if \<open>t\<close> is the
    bucket, the header or the iterator struct of \<open>m\<close>, tested in that order, the renderer
    writes \<^verbatim>\<open>map.bucket[\<close>, \<^verbatim>\<open>map.hdr[\<close> or \<^verbatim>\<open>map.iter[\<close>, the key type of \<open>m\<close>,
    \<^verbatim>\<open>]\<close> and the element type of \<open>m\<close>, both in the mode of the call and with \<open>t\<close>
    marked in \<^verbatim>\<open>visited\<close> at the length of the buffer, and nothing of the fields of
    \<open>t\<close>; if \<open>t\<close> is none of the three, it stops the compiler with
    \<^verbatim>\<open>Fatalf("unknown internal map type")\<close>.
  \<^item> In debug mode, when \<open>t\<close> has no symbol or is \<^verbatim>\<open>Types[TSTRUCT]\<close>, whatever the
    verb: the renderer first writes the name of the kind and a dash, and then does the
    same with the key and the element rendered in display mode, or stops the compiler
    in the same way.
\<close>

theorem tconv2_map_struct:
  "visited_lookup vis (Some a) = None
   \<and> Some a \<notin> {ByteType E, RuneType E, ErrorType E}
   \<and> kind (types E a) = TSTRUCT \<and> extra (types E a) = Struct fs (Some ma) funarg
   \<and> kind (types E ma) = TMAP \<and> extra (types E ma) = Map key el bucket hmap hiter
   \<longrightarrow>
     (mode \<noteq> fmtDebug
      \<and> (verb = verb_L \<or> sym (types E a) = None \<or> Types E TSTRUCT = Some a) \<longrightarrow>
       tconv2 (Suc n) E p b (Some a) verb mode vis =
         (if Some a = bucket \<or> Some a = hmap \<or> Some a = hiter then
            and_then
              (tconv2 n E p
                 (b @ (if Some a = bucket then ''map.bucket[''
                       else if Some a = hmap then ''map.hdr['' else ''map.iter[''))
                 key 0 mode
                 (Some ((case vis of None \<Rightarrow> Map.empty | Some m \<Rightarrow> m)(Some a \<mapsto> length b))))
              (\<lambda>(b1, v1, p1).
                 and_then (tconv2 n E p1 (b1 @ '']'') el 0 mode v1) (\<lambda>(b2, v2, p2).
                   Inr (b2,
                        (case vis of None \<Rightarrow> None
                         | Some m0 \<Rightarrow> map_option (\<lambda>m. m(Some a := None)) v2),
                        p2)))
          else Inl (Fatalf ''unknown internal map type'')))
   \<and> (sym (types E a) = None \<or> Types E TSTRUCT = Some a \<longrightarrow>
       tconv2 (Suc (Suc n)) E p b (Some a) verb fmtDebug vis =
         (if Some a = bucket \<or> Some a = hmap \<or> Some a = hiter then
            and_then
              (tconv2 n E p
                 (b @ KindString E TSTRUCT @ ''-''
                    @ (if Some a = bucket then ''map.bucket[''
                       else if Some a = hmap then ''map.hdr['' else ''map.iter[''))
                 key 0 fmtGo
                 (Some ((case vis of None \<Rightarrow> Map.empty | Some m \<Rightarrow> m)
                          (Some a \<mapsto> length (b @ KindString E TSTRUCT @ ''-'')))))
              (\<lambda>(b1, v1, p1).
                 and_then (tconv2 n E p1 (b1 @ '']'') el 0 fmtGo v1) (\<lambda>(b2, v2, p2).
                   Inr (b2,
                        (case vis of None \<Rightarrow> None
                         | Some m0 \<Rightarrow> map_option (\<lambda>m. m(Some a := None)) v2),
                        p2)))
          else Inl (Fatalf ''unknown internal map type'')))"
  by (intro impI conjI; elim conjE disjE;
      simp add: tconv2_body_def tconv2_tail_def tconv2_switch_def tconv2_struct_def
        StructType_def MapType_def deref_def BasicTypeNames_def Let_def and_then_assoc
        case_prod_unfold)

text \<open>
  The three structs of \<^verbatim>\<open>map[string]int\<close> at 15, 16 and 17, each with a field of
  its own that is not printed, and the struct at 18 that claims the same map, in a
  mode other than debug and in debug mode.
\<close>

theorem tconv2_map_struct_witness:
  "tconv2 (Suc (Suc 0)) ex_env [] [] (Some 15) 0 fmtGo None
     = Inr (''map.bucket[string]int'', None, [])
   \<and> tconv2 (Suc (Suc 0)) ex_env [] [] (Some 16) 0 fmtTypeIDName None
     = Inr (''map.hdr[string]int'', None, [])
   \<and> tconv2 (Suc (Suc 0)) ex_env [] [] (Some 17) verb_L fmtTypeID (Some Map.empty)
     = Inr (''map.iter[string]int'', Some Map.empty, [])
   \<and> tconv2 (Suc (Suc (Suc 0))) ex_env [] [] (Some 15) verb_L fmtDebug None
     = Inr (''STRUCT-map.bucket[string]int'', None, [])
   \<and> tconv2 (Suc 0) ex_env [] [] (Some 18) 0 fmtGo None
     = Inl (Fatalf ''unknown internal map type'')
   \<and> tconv2 (Suc (Suc 0)) ex_env [] [] (Some 18) 0 fmtDebug None
     = Inl (Fatalf ''unknown internal map type'')"
  using
    tconv2_map_struct [where vis = None and a = 15 and E = ex_env and verb = 0 and mode = fmtGo
      and n = "Suc 0" and p = "[]" and b = "[]" and ma = 14 and funarg = FunargNone
      and fs = "[Some (field ''topbits'' (Some 2))]"
      and key = "Some 1" and el = "Some 0" and bucket = "Some 15" and hmap = "Some 16"
      and hiter = "Some 17"]
    tconv2_map_struct [where vis = None and a = 16 and E = ex_env and verb = 0
      and mode = fmtTypeIDName
      and n = "Suc 0" and p = "[]" and b = "[]" and ma = 14 and funarg = FunargNone
      and fs = "[Some (field ''count'' (Some 0))]"
      and key = "Some 1" and el = "Some 0" and bucket = "Some 15" and hmap = "Some 16"
      and hiter = "Some 17"]
    tconv2_map_struct [where vis = "Some Map.empty" and a = 17 and E = ex_env and verb = verb_L
      and mode = fmtTypeID
      and n = "Suc 0" and p = "[]" and b = "[]" and ma = 14 and funarg = FunargNone
      and fs = "[Some (field ''key'' (Some 1))]"
      and key = "Some 1" and el = "Some 0" and bucket = "Some 15" and hmap = "Some 16"
      and hiter = "Some 17"]
    tconv2_map_struct [where vis = None and a = 15 and E = ex_env and verb = verb_L
      and mode = fmtGo
      and n = "Suc 0" and p = "[]" and b = "[]" and ma = 14 and funarg = FunargNone
      and fs = "[Some (field ''topbits'' (Some 2))]"
      and key = "Some 1" and el = "Some 0" and bucket = "Some 15" and hmap = "Some 16"
      and hiter = "Some 17"]
    tconv2_map_struct [where vis = None and a = 18 and E = ex_env and verb = 0 and mode = fmtGo
      and n = 0 and p = "[]" and b = "[]" and ma = 14 and funarg = FunargNone
      and fs = "[]"
      and key = "Some 1" and el = "Some 0" and bucket = "Some 15" and hmap = "Some 16"
      and hiter = "Some 17"]
  by (simp add: render_defs ex_defs Let_def FormatInt_eval)

text \<open>
  C5 as stated fails for a struct that does not reach the switch on the kind. A struct
  with a name leaves the renderer before the switch, as does one that is already in
  \<^verbatim>\<open>visited\<close>. The named struct \<open>B\<close> at 23 claims \<^verbatim>\<open>map[string]int\<close> and is none
  of its three structs; it prints as \<open>B\<close>, and as \<^verbatim>\<open>STRUCT-B\<close> in debug mode even
  with the verb \<^verbatim>\<open>'L'\<close>, and the compiler is not stopped. The unnamed struct at 18
  claims the map in the same way, and prints as a back reference when it is met inside
  itself.
\<close>

theorem tconv2_map_struct_counterexample:
  "kind (types ex_env 23) = TSTRUCT
   \<and> extra (types ex_env 23) = Struct [] (Some 14) FunargNone
   \<and> MapType (types ex_env 14) = Inr (Some 1, Some 0, Some 15, Some 16, Some 17)
   \<and> tconv (Suc 0) ex_env [] (Some 23) verb_v fmtGo = Inr (''B'', [''B''])
   \<and> tconv (Suc (Suc 0)) ex_env [] (Some 23) verb_L fmtDebug = Inr (''STRUCT-B'', [''STRUCT-B''])
   \<and> extra (types ex_env 18) = Struct [] (Some 14) FunargNone
   \<and> tconv2 (Suc 0) ex_env [] ''ab'' (Some 18) 0 fmtGo (Some [Some 18 \<mapsto> 0])
       = Inr (''ab@0'', Some [Some 18 \<mapsto> 0], [])"
  by (simp add: render_defs ex_defs Let_def trim_sym_def dot_def isDigit_def FormatInt_eval)

subsection \<open>The synthetic kinds\<close>

lemma String_with_tconv: "String_with (tconv2 n E) p t = tconv n E p t 0 fmtGo"
  by (simp add: String_with_def tconv_def)

lemma display_strings_length:
  "display_strings n E p ts = Inr (ss, p') \<Longrightarrow> length ss = length ts"
proof (induction ts arbitrary: p ss)
  case Nil
  then show ?case by simp
next
  case (Cons t ts)
  then show ?case
    by (auto simp: and_then_def split: sum.splits prod.splits)
qed

lemma results_loop_join:
  "results_loop (tconv2 n E) i p b ts =
     and_then (display_strings n E p ts) (\<lambda>(ss, p').
       Inr (b @ (if i > 0 \<and> ts \<noteq> [] then '','' else []) @ comma_join ss, p'))"
proof (induction ts arbitrary: i p b)
  case Nil
  then show ?case by simp
next
  case (Cons t ts)
  show ?case
  proof (cases "tconv n E p t 0 fmtGo")
    case (Inl e)
    then show ?thesis by (simp add: String_with_tconv)
  next
    case (Inr r)
    obtain s p1 where r: "r = (s, p1)" by (cases r)
    show ?thesis
    proof (cases "display_strings n E p1 ts")
      case (Inl e)
      with Inr r Cons.IH show ?thesis by (simp add: String_with_tconv)
    next
      case inner: (Inr q)
      obtain ss p2 where q: "q = (ss, p2)" by (cases q)
      from inner q have "length ss = length ts" by (simp add: display_strings_length)
      then have "ss = [] \<longleftrightarrow> ts = []" by auto
      with Inr r inner q Cons.IH show ?thesis by (auto simp add: String_with_tconv)
    qed
  qed
qed

text \<open>
  C10. For a type of a synthetic kind that is not in \<^verbatim>\<open>visited\<close> (its own rendering
  never puts it there: the three cases return before the marking), \<^verbatim>\<open>tconv2\<close> returns
  before it marks the type, with \<^verbatim>\<open>visited\<close> as it was. The raw-text kind appends its
  string. The tuple kind appends the display-mode strings of its two types with a comma
  between them. The result-list kind appends the display-mode strings of its types,
  joined by commas. The display-mode string of an element is \<^verbatim>\<open>tconv(t, 0, fmtGo)\<close>
  with a buffer and a \<^verbatim>\<open>visited\<close> map of its own, so the right-hand sides depend on
  neither the caller's mode, nor its verb, nor its \<^verbatim>\<open>visited\<close>.
\<close>

theorem tconv2_synthetic:
  "visited_lookup vis (Some a) = None \<longrightarrow>
     (kind (types E a) = TSSA \<and> extra (types E a) = SSAString s \<longrightarrow>
        tconv2 (Suc n) E p b (Some a) verb mode vis = Inr (b @ s, vis, p))
   \<and> (kind (types E a) = TTUPLE \<and> extra (types E a) = Tuple x y \<longrightarrow>
        tconv2 (Suc n) E p b (Some a) verb mode vis =
          and_then (tconv n E p x 0 fmtGo) (\<lambda>(s0, p1).
            and_then (tconv n E p1 y 0 fmtGo) (\<lambda>(s1, p2).
              Inr (b @ s0 @ '','' @ s1, vis, p2))))
   \<and> (kind (types E a) = TRESULTS \<and> extra (types E a) = Results ts \<longrightarrow>
        tconv2 (Suc n) E p b (Some a) verb mode vis =
          and_then (display_strings n E p ts) (\<lambda>(ss, p1).
            Inr (b @ comma_join ss, vis, p1)))"
  by (simp add: tconv2_body_def FieldType_def String_with_tconv results_loop_join
      and_then_assoc case_prod_unfold)

text \<open>
  The raw text \<open>mem\<close> at 19, the tuple of \<open>*T\<close> and \<open>mem\<close> at 20 and the result list
  of \<open>*T\<close>, \<open>int\<close> and \<open>mem\<close> at 21, in debug, link-identity and name-string mode, the
  last with the pointer type already in \<^verbatim>\<open>visited\<close>: the elements print as in display
  mode, in full.
\<close>

theorem tconv2_synthetic_witness:
  "tconv2 (Suc 0) ex_env [] ''x'' (Some 19) verb_L fmtDebug None = Inr (''xmem'', None, [])
   \<and> tconv2 (Suc (Suc (Suc 0))) ex_env [] ''x'' (Some 20) 0 fmtTypeID None
     = Inr (''x*T,mem'', None, [''mem''])
   \<and> tconv2 (Suc (Suc (Suc 0))) ex_env [] ''x'' (Some 21) 0 fmtTypeIDName (Some [Some 11 \<mapsto> 0])
     = Inr (''x*T,int,mem'', Some [Some 11 \<mapsto> 0], [''mem''])"
  using
    tconv2_synthetic [where vis = None and a = 19 and E = ex_env and s = "''mem''" and n = 0
      and p = "[]" and b = "''x''" and verb = verb_L and mode = fmtDebug
      and x = None and y = None and ts = "[]"]
    tconv2_synthetic [where vis = None and a = 20 and E = ex_env and s = "''mem''"
      and n = "Suc (Suc 0)"
      and p = "[]" and b = "''x''" and verb = 0 and mode = fmtTypeID
      and x = "Some 11" and y = "Some 19" and ts = "[]"]
    tconv2_synthetic [where vis = "Some [Some 11 \<mapsto> 0]" and a = 21 and E = ex_env
      and s = "''mem''" and n = "Suc (Suc 0)"
      and p = "[]" and b = "''x''" and verb = 0 and mode = fmtTypeIDName
      and x = None and y = None and ts = "[Some 11, Some 0, Some 19]"]
  by (simp add: render_defs ex_defs Let_def trim_sym_def dot_def isDigit_def FormatInt_eval)

section \<open>Independence of the buffer pool\<close>

text \<open>
  Every buffer taken from the pool is reset before it is written, so what a renderer
  returns, the pool apart, is the same from any pool. The proof follows the renderer case
  by case, for any inner renderer with that property, and then the depth of the calls.
\<close>

lemma no_pool_simps [simp]:
  "no_pool (Inl e) = Inl e"
  "no_pool (Inr (b, v, p)) = Inr (b, v)"
  by (simp_all add: no_pool_def)

lemma pool_freeD: "pool_free rec \<Longrightarrow> no_pool (rec p b t verb mode vis) = no_pool (rec p' b t verb mode vis)"
  unfolding pool_free_def by blast

lemma no_pool_bind3:
  assumes "no_pool m = no_pool m'"
    and "\<And>b v p p'. no_pool (f b v p) = no_pool (f' b v p')"
  shows "no_pool (and_then m (\<lambda>(b, v, p). f b v p)) = no_pool (and_then m' (\<lambda>(b, v, p). f' b v p))"
proof (cases m)
  case (Inl e)
  with assms(1) show ?thesis by (cases m') (auto simp: no_pool_def)
next
  case (Inr r)
  obtain b v p where r: "r = (b, v, p)" by (cases r)
  from Inr r assms(1) obtain p' where "m' = Inr (b, v, p')"
    by (cases m') (auto simp: no_pool_def)
  with Inr r assms(2) [of b v p p'] show ?thesis by simp
qed

lemma fst_bind2:
  assumes "map_sum id fst m = map_sum id fst m'"
    and "\<And>s p p'. no_pool (f s p) = no_pool (f' s p')"
  shows "no_pool (and_then m (\<lambda>(s, p). f s p)) = no_pool (and_then m' (\<lambda>(s, p). f' s p))"
proof (cases m)
  case (Inl e)
  with assms(1) show ?thesis by (cases m') auto
next
  case (Inr r)
  obtain s p where r: "r = (s, p)" by (cases r)
  from Inr r assms(1) obtain p' where "m' = Inr (s, p')"
    by (cases m') auto
  with Inr r assms(2) [of s p p'] show ?thesis by simp
qed

lemma fst_bind2_fst:
  assumes "map_sum id fst m = map_sum id fst m'"
    and "\<And>s p p'. map_sum id fst (f s p) = map_sum id fst (f' s p')"
  shows "map_sum id fst (and_then m (\<lambda>(s, p). f s p)) = map_sum id fst (and_then m' (\<lambda>(s, p). f' s p))"
proof (cases m)
  case (Inl e)
  with assms(1) show ?thesis by (cases m') auto
next
  case (Inr r)
  obtain s p where r: "r = (s, p)" by (cases r)
  from Inr r assms(1) obtain p' where "m' = Inr (s, p')"
    by (cases m') auto
  with Inr r assms(2) [of s p p'] show ?thesis by simp
qed

lemma no_pool_bind_fst:
  assumes "no_pool m = no_pool m'"
    and "\<And>b v p p'. map_sum id fst (f b v p) = map_sum id fst (f' b v p')"
  shows "map_sum id fst (and_then m (\<lambda>(b, v, p). f b v p)) = map_sum id fst (and_then m' (\<lambda>(b, v, p). f' b v p))"
proof (cases m)
  case (Inl e)
  with assms(1) show ?thesis by (cases m') (auto simp: no_pool_def)
next
  case (Inr r)
  obtain b v p where r: "r = (b, v, p)" by (cases r)
  from Inr r assms(1) obtain p' where "m' = Inr (b, v, p')"
    by (cases m') (auto simp: no_pool_def)
  with Inr r assms(2) [of b v p p'] show ?thesis by simp
qed

lemma no_pool_bind1:
  assumes "\<And>x. no_pool (f x) = no_pool (f' x)"
  shows "no_pool (and_then m f) = no_pool (and_then m f')"
  using assms by (cases m) simp_all

lemma tconv_with_pool:
  assumes "pool_free rec"
  shows "map_sum id fst (tconv_with rec p t verb mode) = map_sum id fst (tconv_with rec p' t verb mode)"
  unfolding tconv_with_def Reset_def
  by (simp split: prod.splits) (intro allI impI no_pool_bind_fst pool_freeD [OF assms], simp)

lemma sconv_pool:
  "map_sum id fst (sconv E p s verb mode) = map_sum id fst (sconv E p' s verb mode)"
  by (cases "pkgqual E (sym_Pkg (the s)) verb mode")
     (auto simp: sconv_def pool_Get_def Reset_def Let_def split: option.splits list.splits)

lemma results_loop_pool:
  assumes "pool_free rec"
  shows "map_sum id fst (results_loop rec i p b ts) = map_sum id fst (results_loop rec i p' b ts)"
proof (induction ts arbitrary: i p p' b)
  case Nil
  show ?case by simp
next
  case (Cons t ts)
  show ?case
    unfolding results_loop.simps Let_def String_with_def
    by (rule fst_bind2_fst [OF tconv_with_pool [OF assms]]) (rule Cons.IH)
qed

lemma fldconv_name_pool:
  "map_sum id fst (fldconv_name E p f verb mode funarg) = map_sum id fst (fldconv_name E p' f verb mode funarg)"
  using sconv_pool [of E p _ 0 mode p']
  by (auto simp: fldconv_name_def Let_def split: option.splits)

lemma fldconv_pool:
  assumes "pool_free rec"
  shows "no_pool (fldconv rec E p b fo verb mode vis funarg) = no_pool (fldconv rec E p' b fo verb mode vis funarg)"
proof (cases fo)
  case None
  then show ?thesis by (simp add: fldconv_def)
next
  case (Some f)
  show ?thesis
    unfolding fldconv_def Some option.case Let_def
    apply (rule fst_bind2 [OF fldconv_name_pool])
    apply (rule no_pool_bind3)
     apply (auto intro!: no_pool_bind1 pool_freeD [OF assms])
    done
qed


lemma funarg_fields_pool:
  assumes "pool_free rec"
  shows "no_pool (funarg_fields rec E i p b fs fv mode vis funarg)
       = no_pool (funarg_fields rec E i p' b fs fv mode vis funarg)"
proof (induction fs arbitrary: i p p' b vis)
  case Nil
  show ?case by simp
next
  case (Cons f fs)
  show ?case
    unfolding funarg_fields.simps
    by (rule no_pool_bind3 [OF fldconv_pool [OF assms]]) (rule Cons.IH)
qed

lemma struct_fields_pool:
  assumes "pool_free rec"
  shows "no_pool (struct_fields rec E i p b fs mode vis funarg)
       = no_pool (struct_fields rec E i p' b fs mode vis funarg)"
proof (induction fs arbitrary: i p p' b vis)
  case Nil
  show ?case by simp
next
  case (Cons f fs)
  show ?case
    unfolding struct_fields.simps
    by (rule no_pool_bind3 [OF fldconv_pool [OF assms]]) (rule Cons.IH)
qed

lemma union_terms_pool:
  assumes "pool_free rec"
  shows "no_pool (union_terms rec i p b ts mode vis) = no_pool (union_terms rec i p' b ts mode vis)"
proof (induction ts arbitrary: i p p' b vis)
  case Nil
  show ?case by simp
next
  case (Cons t ts)
  obtain el tilde where t: "t = (el, tilde)" by (cases t)
  show ?case
    unfolding t union_terms.simps Let_def
    by (rule no_pool_bind3 [OF pool_freeD [OF assms]]) (rule Cons.IH)
qed

lemma inter_methods_pool:
  assumes "pool_free rec"
  shows "no_pool (inter_methods rec E i p b fs mode vis) = no_pool (inter_methods rec E i p' b fs mode vis)"
proof (induction fs arbitrary: i p p' b mode vis)
  case Nil
  show ?case by simp
next
  case (Cons fo fs)
  show ?case
  proof (cases fo)
    case None
    then show ?thesis by (simp add: Let_def)
  next
    case (Some f)
    show ?thesis
      unfolding Some inter_methods.simps Let_def option.case
      apply (rule no_pool_bind1)
      apply (simp only: split_paired_all prod.case)
      apply (rule no_pool_bind3 [OF pool_freeD [OF assms]])
      apply (rule Cons.IH)
      done
  qed
qed

lemma no_pool_if:
  "(c \<Longrightarrow> no_pool x = no_pool x') \<Longrightarrow> (\<not> c \<Longrightarrow> no_pool y = no_pool y')
   \<Longrightarrow> no_pool (if c then x else y) = no_pool (if c then x' else y')"
  by simp

lemma tconv2_chan_pool:
  assumes "pool_free rec"
  shows "no_pool (tconv2_chan rec E p b t mode vis) = no_pool (tconv2_chan rec E p' b t mode vis)"
  unfolding tconv2_chan_def Let_def
  by (intro no_pool_bind1 no_pool_if no_pool_bind3 pool_freeD [OF assms]) simp

lemma tconv2_inter_pool:
  assumes "pool_free rec"
  shows "no_pool (tconv2_inter rec E p b t mode vis) = no_pool (tconv2_inter rec E p' b t mode vis)"
  unfolding tconv2_inter_def Let_def
  by (intro no_pool_if no_pool_bind3 inter_methods_pool [OF assms]) simp_all

lemma tconv2_func_pool:
  assumes "pool_free rec"
  shows "no_pool (tconv2_func rec E p b t verb mode vis) = no_pool (tconv2_func rec E p' b t verb mode vis)"
  unfolding tconv2_func_def Let_def
  apply (rule no_pool_bind3)
   apply (rule no_pool_if)
    apply simp
   apply (rule no_pool_bind1)
   apply (rule no_pool_bind3)
    apply (rule no_pool_if)
     apply (rule no_pool_bind1)
     apply (simp only: split_paired_all prod.case)
     apply (rule no_pool_bind3 [OF pool_freeD [OF assms]])
     apply simp
    apply simp
   apply simp
  apply (rule no_pool_bind1)
  apply (simp only: split_paired_all prod.case)
  apply (rule no_pool_bind1)
  apply (rule no_pool_bind3)
   apply (rule no_pool_if)
    apply (rule pool_freeD [OF assms])
   apply simp
  apply (rule no_pool_bind3 [OF pool_freeD [OF assms]])
  apply (rule no_pool_bind1)
  apply (rule no_pool_if)
   apply simp
  apply (rule no_pool_if)
   apply (rule no_pool_bind1)
   apply (simp split: option.splits add: pool_freeD [OF assms])
  apply (rule pool_freeD [OF assms])
  done

lemma tconv2_struct_pool:
  assumes "pool_free rec"
  shows "no_pool (tconv2_struct rec E p b a mode vis) = no_pool (tconv2_struct rec E p' b a mode vis)"
  unfolding tconv2_struct_def Let_def
  apply (rule no_pool_bind1)
  apply (simp only: split_paired_all prod.case)
  apply (rule no_pool_if)
   apply (rule no_pool_bind1)
   apply (rule no_pool_bind1)
   apply (simp only: split_paired_all prod.case)
   apply (rule no_pool_bind1)
   apply (rule no_pool_bind3 [OF pool_freeD [OF assms]])
   apply (rule pool_freeD [OF assms])
  apply (rule no_pool_if)
   apply (rule no_pool_bind3 [OF funarg_fields_pool [OF assms]])
   apply simp
  apply (rule no_pool_bind3 [OF struct_fields_pool [OF assms]])
  apply simp
  done

lemma tconv2_switch_pool:
  assumes "pool_free rec"
  shows "no_pool (tconv2_switch rec E p b a verb mode vis) = no_pool (tconv2_switch rec E p' b a verb mode vis)"
  unfolding tconv2_switch_def Let_def
  apply (intro no_pool_if)
              apply (intro no_pool_bind1 no_pool_if pool_freeD [OF assms])
             apply (intro no_pool_bind1 no_pool_if pool_freeD [OF assms])
            apply (intro no_pool_bind1 no_pool_if pool_freeD [OF assms])
           apply (rule tconv2_chan_pool [OF assms])
          apply (rule no_pool_bind1)
          apply (simp only: split_paired_all prod.case)
          apply (rule no_pool_bind3 [OF pool_freeD [OF assms]])
          apply (rule pool_freeD [OF assms])
         apply (rule tconv2_inter_pool [OF assms])
        apply (rule tconv2_func_pool [OF assms])
       apply (rule tconv2_struct_pool [OF assms])
      apply (simp split: option.splits add: no_pool_bind1)
     apply simp
    apply (simp split: option.splits add: no_pool_bind1)
   apply (simp split: Extra.splits add: union_terms_pool [OF assms])
  apply simp
  apply (rule no_pool_bind1)
  apply simp
  done

lemma tconv2_tail_pool:
  assumes "pool_free rec"
  shows "no_pool (tconv2_tail rec E p b t verb mode vis) = no_pool (tconv2_tail rec E p' b t verb mode vis)"
proof (cases t)
  case None
  then show ?thesis by (simp add: tconv2_tail_def)
next
  case (Some a)
  show ?thesis
    unfolding tconv2_tail_def Some option.case Let_def
    apply (intro no_pool_if)
        apply simp
       apply (simp split: option.splits add: no_pool_bind1)
      apply simp
     apply (rule pool_freeD [OF assms])
    apply (rule no_pool_bind3 [OF tconv2_switch_pool [OF assms]])
    apply simp
    done
qed

lemma tconv2_body_pool:
  assumes "pool_free rec"
  shows "no_pool (tconv2_body rec E p b t verb mode vis) = no_pool (tconv2_body rec E p' b t verb mode vis)"
proof (cases "visited_lookup vis t")
  case (Some off)
  then show ?thesis by (simp add: tconv2_body_def)
next
  case None
  note nv = None
  show ?thesis
  proof (cases t)
    case None
    with nv show ?thesis by (simp add: tconv2_body_def)
  next
    case (Some a)
    have tuple: "no_pool (and_then (String_with rec p x) (\<lambda>(s0, p).
                     and_then (String_with rec p y) (\<lambda>(s1, p). Inr (b @ s0 @ '','' @ s1, vis, p))))
               = no_pool (and_then (String_with rec p' x) (\<lambda>(s0, p).
                     and_then (String_with rec p y) (\<lambda>(s1, p). Inr (b @ s0 @ '','' @ s1, vis, p))))"
      for x y
      unfolding String_with_def
      by (rule fst_bind2 [OF tconv_with_pool [OF assms]])
         (rule fst_bind2 [OF tconv_with_pool [OF assms]], simp)
    have results: "no_pool (and_then (results_loop rec 0 p b ts) (\<lambda>(b, p). Inr (b, vis, p)))
         = no_pool (and_then (results_loop rec 0 p' b ts) (\<lambda>(b, p). Inr (b, vis, p)))" for ts
      by (rule fst_bind2 [OF results_loop_pool [OF assms]]) simp
    have sc: "no_pool (and_then (sconv2 E b s verb_S mode) (\<lambda>b. Inr (b, vis, p)))
         = no_pool (and_then (sconv2 E b s verb_S mode) (\<lambda>b. Inr (b, vis, p')))" for s
      by (rule no_pool_bind1) simp
    consider "kind (types E a) = TSSA" | "kind (types E a) = TTUPLE" | "kind (types E a) = TRESULTS"
      | "kind (types E a) \<notin> {TSSA, TTUPLE, TRESULTS}"
      by auto
    then show ?thesis
    proof cases
      case 1
      with nv Some show ?thesis
        by (simp add: tconv2_body_def split: Extra.splits)
    next
      case 2
      with nv Some show ?thesis
        using tuple
        by (cases "extra (types E a)") (simp_all add: tconv2_body_def FieldType_def)
    next
      case 3
      with nv Some show ?thesis
        using results
        by (cases "extra (types E a)") (simp_all add: tconv2_body_def)
    next
      case 4
      with nv Some show ?thesis
        using tconv2_tail_pool [OF assms, of E p b _ verb mode vis p'] sc
        by (simp add: tconv2_body_def Let_def)
    qed
  qed
qed

lemma tconv2_pool_free: "pool_free (tconv2 n E)"
proof (induction n)
  case 0
  show ?case by (simp add: pool_free_def)
next
  case (Suc n)
  show ?case
    unfolding pool_free_def tconv2.simps
    by (intro allI tconv2_body_pool [OF Suc])
qed

lemma tconv_pool:
  "map_sum id fst (tconv n E p t verb mode) = map_sum id fst (tconv n E p' t verb mode)"
  unfolding tconv_def by (rule tconv_with_pool [OF tconv2_pool_free])

section \<open>Determinism\<close>

lemma tconv_again:
  assumes "tconv n E p t verb mode = Inr (s, p1)"
  shows "\<exists>p2. tconv n E p1 t verb mode = Inr (s, p2)"
proof -
  have "map_sum id fst (tconv n E p1 t verb mode) = map_sum id fst (tconv n E p t verb mode)"
    by (rule tconv_pool)
  with assms show ?thesis
    by (cases "tconv n E p1 t verb mode") auto
qed

text \<open>
  C1. \<^verbatim>\<open>tconv\<close> reads the type, the verb, the mode and the compilation \<open>E\<close>, which
  it does not change; the one thing a call changes is the pool of buffers. The string it
  returns (or the fault it stops with) is the same from every pool, and so the same in
  whatever order calls are made: a second rendering of the same type in the same mode,
  from the pool the first rendering left, returns the same bytes. Threads are not
  modelled; a call holds the buffer it took from the pool alone, and the pool is all that
  calls share and write.
\<close>

theorem tconv_deterministic:
  "map_sum id fst (tconv n E p t verb mode) = map_sum id fst (tconv n E p' t verb mode)
   \<and> (tconv n E p t verb mode = Inr (s, p1) \<longrightarrow> (\<exists>p2. tconv n E p1 t verb mode = Inr (s, p2)))"
  using tconv_pool [of n E p t verb mode p'] tconv_again [of n E p t verb mode s p1] by blast

theorem tconv_deterministic_witness:
  "map_sum id fst (tconv (Suc (Suc (Suc 0))) ex_env [''junk'', ''more''] (Some 10) verb_L fmtGo)
     = map_sum id fst (tconv (Suc (Suc (Suc 0))) ex_env [] (Some 10) verb_L fmtGo)
   \<and> tconv (Suc (Suc (Suc 0))) ex_env [''junk'', ''more''] (Some 10) verb_L fmtGo
     = Inr (''struct { next *@0 }'', [''struct { next *@0 }'', ''more''])
   \<and> (\<exists>p2. tconv (Suc (Suc (Suc 0))) ex_env [''struct { next *@0 }'', ''more''] (Some 10) verb_L fmtGo
          = Inr (''struct { next *@0 }'', p2))"
  using tconv_deterministic [of "Suc (Suc (Suc 0))" ex_env "[''junk'', ''more'']" "Some 10" verb_L fmtGo
      "[]" "''struct { next *@0 }''" "[''struct { next *@0 }'', ''more'']"]
  by (simp add: render_defs ex_defs Let_def FormatInt_eval)

section \<open>Properties of the type hash\<close>

lemma le32:
  fixes b0 b1 b2 b3 :: "8 word"
  shows "(or (ucast b0) (or (push_bit 8 (ucast b1)) (or (push_bit 16 (ucast b2)) (push_bit 24 (ucast b3)))) :: 32 word)
   = word_of_nat (unat b0 + 256 * unat b1 + 65536 * unat b2 + 16777216 * unat b3)"
proof -
  have a: "(or (push_bit 16 (ucast b2)) (push_bit 24 (ucast b3)) :: 32 word)
      = push_bit 16 (ucast b2) + push_bit 24 (ucast b3)"
    by (rule disjunctive_add_eq_or [symmetric])
       (auto simp: bit_eq_iff bit_simps dest: bit_imp_le_length)
  have b: "(or (push_bit 8 (ucast b1)) (or (push_bit 16 (ucast b2)) (push_bit 24 (ucast b3))) :: 32 word)
      = push_bit 8 (ucast b1) + (or (push_bit 16 (ucast b2)) (push_bit 24 (ucast b3)))"
    by (rule disjunctive_add_eq_or [symmetric])
       (auto simp: bit_eq_iff bit_simps dest: bit_imp_le_length)
  have c: "(or (ucast b0) (or (push_bit 8 (ucast b1)) (or (push_bit 16 (ucast b2)) (push_bit 24 (ucast b3)))) :: 32 word)
      = ucast b0 + (or (push_bit 8 (ucast b1)) (or (push_bit 16 (ucast b2)) (push_bit 24 (ucast b3))))"
    by (rule disjunctive_add_eq_or [symmetric])
       (auto simp: bit_eq_iff bit_simps dest: bit_imp_le_length)
  have "(or (ucast b0) (or (push_bit 8 (ucast b1)) (or (push_bit 16 (ucast b2)) (push_bit 24 (ucast b3)))) :: 32 word)
      = ucast b0 + (push_bit 8 (ucast b1) + (push_bit 16 (ucast b2) + push_bit 24 (ucast b3)))"
    by (subst c, subst b, subst a) (rule refl)
  also have "\<dots> = word_of_nat (unat b0 + 256 * unat b1 + 65536 * unat b2 + 16777216 * unat b3)"
    by (simp add: push_bit_eq_mult)
  finally show ?thesis .
qed

text \<open>
  C7. \<^verbatim>\<open>TypeHash(t)\<close> is the 32-bit number whose bytes, least significant first, are
  the first four bytes \<open>h 0\<close>, \<open>h 1\<close>, \<open>h 2\<close>, \<open>h 3\<close> of the digest \<^verbatim>\<open>md5.Sum\<close> of the
  bytes of the name-string rendering of \<open>t\<close> (and it stops where that rendering stops).
  It is the same from every pool of buffers, so a repeated call on the unchanged type
  returns the same hash.
\<close>

theorem TypeHash_digest:
  "TypeHash n E p t =
     and_then (NameString n E p t) (\<lambda>(s, p1).
       Inr (word_of_nat (unat (md5_Sum E s 0) + 256 * unat (md5_Sum E s 1)
              + 65536 * unat (md5_Sum E s 2) + 16777216 * unat (md5_Sum E s 3)), p1))
   \<and> map_sum id fst (TypeHash n E p t) = map_sum id fst (TypeHash n E p' t)
   \<and> (TypeHash n E p t = Inr (h, p1) \<longrightarrow> (\<exists>p2. TypeHash n E p1 t = Inr (h, p2)))"
proof -
  have eq: "TypeHash n E q t =
     and_then (NameString n E q t) (\<lambda>(s, p1).
       Inr (word_of_nat (unat (md5_Sum E s 0) + 256 * unat (md5_Sum E s 1)
              + 65536 * unat (md5_Sum E s 2) + 16777216 * unat (md5_Sum E s 3)), p1))" for q
    by (simp add: TypeHash_def Uint32_def Let_def le32 case_prod_unfold)
  have indep: "map_sum id fst (TypeHash n E q t) = map_sum id fst (TypeHash n E q' t)" for q q'
    unfolding eq NameString_def
    by (rule fst_bind2_fst [OF tconv_pool]) simp
  have again: "\<exists>p2. TypeHash n E p1 t = Inr (h, p2)" if "TypeHash n E p t = Inr (h, p1)"
    using indep [of p1 p] that by (cases "TypeHash n E p1 t") auto
  from eq indep again show ?thesis by blast
qed

text \<open>
  In the small compilation the digest is a stand-in whose byte \<open>i\<close> is the length of the
  input plus \<open>i\<close>: the name string \<open>main.T\<close> has six bytes, the first four digest
  bytes are 6, 7, 8, 9, and the hash is \<open>0x09080706\<close>.
\<close>

theorem TypeHash_digest_witness:
  "TypeHash (Suc 0) ex_env [] (Some 10) = Inr (0x09080706, [''main.T''])
   \<and> NameString (Suc 0) ex_env [] (Some 10) = Inr (''main.T'', [''main.T''])
   \<and> map (md5_Sum ex_env ''main.T'') [0, 1, 2, 3] = [6, 7, 8, 9]
   \<and> (\<exists>p2. TypeHash (Suc 0) ex_env [''main.T''] (Some 10) = Inr (0x09080706, p2))"
  using TypeHash_digest [of "Suc 0" ex_env "[]" "Some 10" "[]" "0x09080706" "[''main.T'']"]
  by (simp add: NameString_def render_defs ex_defs Let_def trim_sym_def dot_def isDigit_def)

section \<open>Cycles\<close>

lemma good_simps [simp]:
  "good (Inl e) v = (e \<noteq> OutOfFuel)"
  "good (Inr (b, v', p)) v = (v' = v)"
  by (simp_all add: good_def)

lemma good_if:
  "(c \<Longrightarrow> good x v) \<Longrightarrow> (\<not> c \<Longrightarrow> good y v) \<Longrightarrow> good (if c then x else y) v"
  by simp

lemma good_bind3:
  assumes "good m v" and "\<And>b p. good (f b v p) w"
  shows "good (and_then m (\<lambda>(b, v', p). f b v' p)) w"
  using assms by (cases m) auto

lemma good_bind1:
  assumes "m \<noteq> Inl OutOfFuel" and "\<And>x. m = Inr x \<Longrightarrow> good (f x) v"
  shows "good (and_then m f) v"
  using assms by (cases m) auto

lemma good_bind2:
  assumes "m \<noteq> Inl OutOfFuel" and "\<And>s p. good (f s p) v"
  shows "good (and_then m (\<lambda>(s, p). f s p)) v"
  using assms by (cases m) auto

text \<open>The accessors and the symbol renderers never run out of fuel.\<close>

lemma pkgqual_fuel [simp]: "pkgqual E q verb mode \<noteq> Inl OutOfFuel"
  by (cases mode) (auto simp: pkgqual_def split: option.splits)

lemma symfmt_fuel [simp]: "symfmt E b sy verb mode \<noteq> Inl OutOfFuel"
  by (cases "pkgqual E (sym_Pkg sy) verb mode") (auto simp: symfmt_def)

lemma sconv2_fuel [simp]: "sconv2 E b s verb mode \<noteq> Inl OutOfFuel"
  by (auto simp: sconv2_def split: option.splits)

lemma sconv_fuel [simp]: "sconv E p s verb mode \<noteq> Inl OutOfFuel"
  by (cases "pkgqual E (sym_Pkg (the s)) verb mode")
     (auto simp: sconv_def Let_def split: option.splits prod.splits if_splits)

lemma fldconv_name_fuel [simp]: "fldconv_name E p f verb mode funarg \<noteq> Inl OutOfFuel"
  by (auto simp: fldconv_name_def Let_def split: option.splits)

lemma tconv2_named_fuel [simp]: "tconv2_named E b ty sy verb mode \<noteq> Inl OutOfFuel"
proof -
  have "and_then (sconv2 E b s v m) (\<lambda>b. if c then Inr (f b) else Inr b) \<noteq> Inl OutOfFuel" for s v m c f
    using sconv2_fuel [of E b s v m] by (cases "sconv2 E b s v m") auto
  then show ?thesis by (simp add: tconv2_named_def Let_def)
qed

lemma Elem_fuel [simp]: "Elem t \<noteq> Inl OutOfFuel"
  by (auto simp: Elem_def split: Extra.splits)

lemma NumElem_fuel [simp]: "NumElem t \<noteq> Inl OutOfFuel"
  by (auto simp: NumElem_def split: Extra.splits)

lemma ChanDir_of_fuel [simp]: "ChanDir_of t \<noteq> Inl OutOfFuel"
  by (auto simp: ChanDir_of_def split: Extra.splits)

lemma MapType_fuel [simp]: "MapType t \<noteq> Inl OutOfFuel"
  by (auto simp: MapType_def split: Extra.splits)

lemma StructType_fuel [simp]: "StructType t \<noteq> Inl OutOfFuel"
  by (auto simp: StructType_def split: Extra.splits)

lemma FuncType_fuel [simp]: "FuncType t \<noteq> Inl OutOfFuel"
  by (auto simp: FuncType_def split: Extra.splits)

lemma Fields_fuel [simp]: "Fields t \<noteq> Inl OutOfFuel"
  by (auto simp: Fields_def split: Extra.splits)

lemma deref_fuel [simp]: "deref E q \<noteq> Inl OutOfFuel"
  by (auto simp: deref_def split: option.splits)

lemma NumFields_fuel [simp]: "NumFields E q \<noteq> Inl OutOfFuel"
  by (cases q; cases "Fields (types E (the q))")
     (auto simp: NumFields_def deref_def split: Extra.splits)

lemma Field0_fuel [simp]: "Field0 E q \<noteq> Inl OutOfFuel"
  by (cases q; cases "Fields (types E (the q))")
     (auto simp: Field0_def deref_def split: list.splits)

lemma Recv_fuel [simp]: "Recv E t \<noteq> Inl OutOfFuel"
  by (cases "FuncType t"; cases "NumFields E (fst (projr (FuncType t)))")
     (auto simp: Recv_def split: if_splits)

text \<open>What an accessor returns is one of the pointers its type holds.\<close>

lemma okptr_None [simp]: "okptr R None"
  by (simp add: okptr_def)

lemma closedD: "closed E R \<Longrightarrow> a \<in> R \<Longrightarrow> q \<in> set (refs (types E a)) \<Longrightarrow> okptr R q"
  by (auto simp: closed_def list_all_iff)

lemma Elem_refs: "Elem t = Inr e \<Longrightarrow> e \<in> set (refs t)"
  by (auto simp: Elem_def refs_def split: if_splits Extra.splits)

lemma MapType_refs: "MapType t = Inr (k, e, bk, hm, hi) \<Longrightarrow> k \<in> set (refs t) \<and> e \<in> set (refs t)"
  by (auto simp: MapType_def refs_def split: if_splits Extra.splits)

lemma FuncType_refs:
  "FuncType t = Inr (rcv, rs, ps, tps) \<Longrightarrow> {rcv, rs, ps, tps} \<subseteq> set (refs t)"
  by (auto simp: FuncType_def refs_def split: if_splits Extra.splits)

lemma StructType_refs:
  "StructType t = Inr (fs, m, fa) \<Longrightarrow> m \<in> set (refs t) \<and> set (field_types fs) \<subseteq> set (refs t)"
  by (auto simp: StructType_def refs_def split: if_splits Extra.splits)

lemma allMethods_refs: "set (field_types (allMethods t)) \<subseteq> set (refs t)"
  by (auto simp: refs_def)

lemma Field0_refs:
  "Field0 E q = Inr (Some f) \<Longrightarrow> \<exists>a. q = Some a \<and> fld_Type f \<in> set (refs (types E a))"
  by (cases q)
     (auto simp: Field0_def deref_def Fields_def refs_def field_types_def
           split: if_splits Extra.splits list.splits)

lemma field_types_Cons:
  "field_types (fo # fs) = (case fo of None \<Rightarrow> [] | Some f \<Rightarrow> [fld_Type f]) @ field_types fs"
  by (simp add: field_types_def)

lemma fldconv_good:
  assumes rec: "\<And>p b t verb mode. okptr R t \<Longrightarrow> mode \<noteq> fmtDebug \<Longrightarrow> good (rec p b t verb mode v) v"
    and cl: "closed E R"
    and mode: "mode \<noteq> fmtDebug"
    and ok: "list_all (okptr R) (field_types [fo])"
  shows "good (fldconv rec E p b fo verb mode v funarg) v"
proof (cases fo)
  case None
  then show ?thesis by (simp add: fldconv_def)
next
  case (Some f)
  from ok Some have okf: "okptr R (fld_Type f)"
    by (simp add: field_types_def)
  have et: "okptr R et"
    if "(case fld_Type f of None \<Rightarrow> Inr None | Some a \<Rightarrow> Elem (types E a)) = Inr et" for et
  proof (cases "fld_Type f")
    case None
    with that show ?thesis by simp
  next
    case (Some a)
    with okf have "a \<in> R" by (simp add: okptr_def)
    moreover from that Some have "et \<in> set (refs (types E a))"
      by (simp add: Elem_refs)
    ultimately show ?thesis using cl by (rule closedD [rotated])
  qed
  have nf: "(case fld_Type f of None \<Rightarrow> Inr None | Some a \<Rightarrow> Elem (types E a)) \<noteq> Inl OutOfFuel"
    by (simp split: option.splits)
  show ?thesis
    unfolding fldconv_def Some option.case Let_def
    apply (rule good_bind2 [OF fldconv_name_fuel])
    apply (rule good_bind3 [where v = v])
     apply (rule good_if)
      apply (rule good_bind1 [OF nf])
      apply (rule rec [OF et mode], assumption)
     apply (rule rec [OF okf mode])
    apply simp
    done
qed

lemma funarg_fields_good:
  assumes rec: "\<And>p b t verb mode. okptr R t \<Longrightarrow> mode \<noteq> fmtDebug \<Longrightarrow> good (rec p b t verb mode v) v"
    and cl: "closed E R"
    and mode: "mode \<noteq> fmtDebug"
  shows "list_all (okptr R) (field_types fs)
    \<Longrightarrow> good (funarg_fields rec E i p b fs fv mode v funarg) v"
proof (induction fs arbitrary: i p b)
  case Nil
  show ?case by simp
next
  case (Cons fo fs)
  from Cons.prems have a: "list_all (okptr R) (field_types [fo])"
    and r: "list_all (okptr R) (field_types fs)"
    by (simp_all add: field_types_def)
  have f: "good (fldconv rec E q c fo vb mode v funarg) v" for q c vb
    using rec cl mode a by (rule fldconv_good)
  show ?case
    unfolding funarg_fields.simps
    by (rule good_bind3 [OF f]) (rule Cons.IH [OF r])
qed

lemma struct_fields_good:
  assumes rec: "\<And>p b t verb mode. okptr R t \<Longrightarrow> mode \<noteq> fmtDebug \<Longrightarrow> good (rec p b t verb mode v) v"
    and cl: "closed E R"
    and mode: "mode \<noteq> fmtDebug"
  shows "list_all (okptr R) (field_types fs)
    \<Longrightarrow> good (struct_fields rec E i p b fs mode v funarg) v"
proof (induction fs arbitrary: i p b)
  case Nil
  show ?case by simp
next
  case (Cons fo fs)
  from Cons.prems have a: "list_all (okptr R) (field_types [fo])"
    and r: "list_all (okptr R) (field_types fs)"
    by (simp_all add: field_types_def)
  have f: "good (fldconv rec E q c fo vb mode v funarg) v" for q c vb
    using rec cl mode a by (rule fldconv_good)
  show ?case
    unfolding struct_fields.simps
    by (rule good_bind3 [OF f]) (rule Cons.IH [OF r])
qed

lemma union_terms_good:
  assumes rec: "\<And>p b t verb mode. okptr R t \<Longrightarrow> mode \<noteq> fmtDebug \<Longrightarrow> good (rec p b t verb mode v) v"
    and mode: "mode \<noteq> fmtDebug"
  shows "list_all (okptr R) (map fst ts) \<Longrightarrow> good (union_terms rec i p b ts mode v) v"
proof (induction ts arbitrary: i p b)
  case Nil
  show ?case by simp
next
  case (Cons t ts)
  obtain el tilde where t: "t = (el, tilde)" by (cases t)
  from Cons.prems t have a: "okptr R el" and r: "list_all (okptr R) (map fst ts)"
    by simp_all
  show ?case
    unfolding t union_terms.simps Let_def
    by (rule good_bind3 [OF rec [OF a mode]]) (rule Cons.IH [OF r])
qed

lemma inter_methods_good:
  assumes rec: "\<And>p b t verb mode. okptr R t \<Longrightarrow> mode \<noteq> fmtDebug \<Longrightarrow> good (rec p b t verb mode v) v"
  shows "list_all (okptr R) (field_types fs) \<Longrightarrow> mode \<noteq> fmtDebug
    \<Longrightarrow> good (inter_methods rec E i p b fs mode v) v"
proof (induction fs arbitrary: i p b mode)
  case Nil
  show ?case by simp
next
  case (Cons fo fs)
  show ?case
  proof (cases fo)
    case None
    then show ?thesis by (simp add: Let_def)
  next
    case (Some f)
    from Cons.prems Some have a: "okptr R (fld_Type f)"
      and r: "list_all (okptr R) (field_types fs)"
      by (simp_all add: field_types_def)
    let ?m = "\<lambda>b. case fld_Sym f of
                  None \<Rightarrow> Inr (b, mode)
                | Some sy \<Rightarrow>
                    if IsExported E (sym_Name sy)
                    then and_then (sconv2 E b (Some sy) verb_S mode) (\<lambda>b. Inr (b, mode))
                    else (let mode = (if mode \<noteq> fmtTypeIDName then fmtTypeID else mode)
                          in and_then (sconv2 E b (Some sy) verb_v mode) (\<lambda>b. Inr (b, mode)))"
    have nf: "?m b0 \<noteq> Inl OutOfFuel" for b0
    proof -
      have h: "and_then (sconv2 E b0 s vb md) (\<lambda>b. Inr (b, md')) \<noteq> Inl OutOfFuel" for s vb md md'
        using sconv2_fuel [of E b0 s vb md] by (cases "sconv2 E b0 s vb md") auto
      show ?thesis by (simp add: Let_def h split: option.splits)
    qed
    have md: "snd x \<noteq> fmtDebug" if "?m b0 = Inr x" for b0 x
      using that Cons.prems(2)
      by (auto simp: Let_def and_then_def split: option.splits if_splits sum.splits)
    show ?thesis
      unfolding Some inter_methods.simps Let_def option.case
      apply (rule good_bind1)
       apply (rule nf [unfolded Let_def])
      apply (simp only: split_paired_all prod.case)
      apply (rule good_bind3 [OF rec [OF a]])
       apply (drule md [unfolded Let_def], simp)
      apply (rule Cons.IH [OF r])
      apply (drule md [unfolded Let_def], simp)
      done
  qed
qed

lemma tconv2_chan_good:
  assumes rec: "\<And>p b t verb mode. okptr R t \<Longrightarrow> mode \<noteq> fmtDebug \<Longrightarrow> good (rec p b t verb mode v) v"
    and cl: "closed E R" and a: "a \<in> R" and mode: "mode \<noteq> fmtDebug"
  shows "good (tconv2_chan rec E p b (types E a) mode v) v"
proof -
  have el: "okptr R e" if "Elem (types E a) = Inr e" for e
    using cl a Elem_refs [OF that] by (rule closedD)
  have nf: "(case e of None \<Rightarrow> Inr False
             | Some ea \<Rightarrow>
                 if kind (types E ea) = TCHAN \<and> sym (types E ea) = None
                 then and_then (ChanDir_of (types E ea)) (\<lambda>d. Inr (d = Crecv))
                 else Inr False) \<noteq> Inl OutOfFuel" for e
  proof -
    have "and_then (ChanDir_of ty) (\<lambda>d. Inr (d = Crecv)) \<noteq> Inl OutOfFuel" for ty
      using ChanDir_of_fuel [of ty] by (cases "ChanDir_of ty") auto
    then show ?thesis by (simp split: option.splits)
  qed
  show ?thesis
    unfolding tconv2_chan_def Let_def
    apply (rule good_bind1 [OF ChanDir_of_fuel])
    apply (rule good_bind1 [OF Elem_fuel])
    apply (drule el)
    apply (intro good_if)
      apply (erule rec [OF _ mode])
     apply (erule rec [OF _ mode])
    apply (rule good_bind1 [OF nf])
    apply (rule good_if)
     apply (rule good_bind3 [where v = v])
      apply (erule rec [OF _ mode])
     apply simp
    apply (erule rec [OF _ mode])
    done
qed

lemma tconv2_inter_good:
  assumes rec: "\<And>p b t verb mode. okptr R t \<Longrightarrow> mode \<noteq> fmtDebug \<Longrightarrow> good (rec p b t verb mode v) v"
    and cl: "closed E R" and a: "a \<in> R" and mode: "mode \<noteq> fmtDebug"
  shows "good (tconv2_inter rec E p b (types E a) mode v) v"
proof -
  have ok: "list_all (okptr R) (field_types (allMethods (types E a)))"
    using allMethods_refs [of "types E a"] closedD [OF cl a]
    by (auto simp: list_all_iff)
  have im: "good (inter_methods rec E i q c (allMethods (types E a)) mode v) v" for i q c
    using rec ok mode by (rule inter_methods_good)
  show ?thesis
    unfolding tconv2_inter_def Let_def
    by (intro good_if good_bind3 [OF im]) simp_all
qed

lemma tconv2_func_good:
  assumes rec: "\<And>p b t verb mode. okptr R t \<Longrightarrow> mode \<noteq> fmtDebug \<Longrightarrow> good (rec p b t verb mode v) v"
    and cl: "closed E R" and a: "a \<in> R" and mode: "mode \<noteq> fmtDebug"
  shows "good (tconv2_func rec E p b (types E a) verb mode v) v"
proof -
  have ft: "okptr R rcv \<and> okptr R rs \<and> okptr R ps \<and> okptr R tps"
    if "FuncType (types E a) = Inr (rcv, rs, ps, tps)" for rcv rs ps tps
    using FuncType_refs [OF that] closedD [OF cl a] by auto
  have f0: "okptr R (fld_Type f)" if "Field0 E rs = Inr (Some f)" and "okptr R rs" for rs f
  proof -
    from Field0_refs [OF that(1)] obtain a' where "rs = Some a'"
      and r: "fld_Type f \<in> set (refs (types E a'))" by blast
    with that(2) have "a' \<in> R" by (simp add: okptr_def)
    with cl show ?thesis using r by (rule closedD)
  qed
  have res: "good (and_then (Field0 E rs) (\<lambda>f0. case f0 of None \<Rightarrow> Inl NilDeref
                  | Some f \<Rightarrow> rec q (c @ '' '') (fld_Type f) 0 mode v)) v"
    if "okptr R rs" for rs q c
  proof (rule good_bind1 [OF Field0_fuel])
    fix x assume x: "Field0 E rs = Inr x"
    show "good (case x of None \<Rightarrow> Inl NilDeref | Some f \<Rightarrow> rec q (c @ '' '') (fld_Type f) 0 mode v) v"
    proof (cases x)
      case None
      then show ?thesis by simp
    next
      case (Some f)
      with x that have "okptr R (fld_Type f)" by (simp add: f0)
      with Some show ?thesis by (simp add: rec mode)
    qed
  qed
  show ?thesis
    unfolding tconv2_func_def Let_def
    apply (rule good_bind3 [where v = v])
     apply (rule good_if)
      apply simp
     apply (rule good_bind1 [OF Recv_fuel])
     apply (rule good_bind3 [where v = v])
      apply (rule good_if)
       apply (rule good_bind1 [OF FuncType_fuel])
       apply (simp only: split_paired_all prod.case)
       apply (drule ft)
       apply (rule good_bind3 [where v = v])
        apply (rule rec [OF _ mode], simp)
       apply simp
      apply simp
     apply simp
    apply (rule good_bind1 [OF FuncType_fuel])
    apply (simp only: split_paired_all prod.case)
    apply (drule ft)
    apply (rule good_bind1 [OF NumFields_fuel])
    apply (rule good_bind3 [where v = v])
     apply (rule good_if)
      apply (rule rec [OF _ mode], simp)
     apply simp
    apply (rule good_bind3 [where v = v])
     apply (rule rec [OF _ mode], simp)
    apply (rule good_bind1 [OF NumFields_fuel])
    apply (rule good_if)
     apply simp
    apply (rule good_if)
     apply (rule res, simp)
    apply (rule rec [OF _ mode], simp)
    done
qed

lemma tconv2_struct_good:
  assumes rec: "\<And>p b t verb mode. okptr R t \<Longrightarrow> mode \<noteq> fmtDebug \<Longrightarrow> good (rec p b t verb mode v) v"
    and cl: "closed E R" and a: "a \<in> R" and mode: "mode \<noteq> fmtDebug"
  shows "good (tconv2_struct rec E p b a mode v) v"
proof -
  have st: "okptr R m \<and> list_all (okptr R) (field_types fs)"
    if "StructType (types E a) = Inr (fs, m, fa)" for fs m fa
    using StructType_refs [OF that] closedD [OF cl a] by (auto simp: list_all_iff)
  have mt: "okptr R k \<and> okptr R e"
    if "deref E m = Inr mty" and "MapType mty = Inr (k, e, bk, hm, hi)" and "okptr R m"
    for m mty k e bk hm hi
  proof -
    from that(1) obtain ma where m: "m = Some ma" and mty: "mty = types E ma"
      by (cases m) (auto simp: deref_def)
    from that(3) m have "ma \<in> R" by (simp add: okptr_def)
    with MapType_refs [OF that(2)] mty closedD [OF cl] show ?thesis by blast
  qed
  have tag: "(if Some a = bk then Inr (b @ ''map.bucket['')
              else if Some a = hm then Inr (b @ ''map.hdr['')
              else if Some a = hi then Inr (b @ ''map.iter['')
              else Inl (Fatalf ''unknown internal map type'')) \<noteq> Inl OutOfFuel" for bk hm hi
    by simp
  have ff: "good (funarg_fields rec E i q c fs fv mode v fa) v"
    if "list_all (okptr R) (field_types fs)" for i q c fs fv fa
    using rec cl mode that by (rule funarg_fields_good)
  have sf: "good (struct_fields rec E i q c fs mode v fa) v"
    if "list_all (okptr R) (field_types fs)" for i q c fs fa
    using rec cl mode that by (rule struct_fields_good)
  show ?thesis
    unfolding tconv2_struct_def Let_def
    apply (rule good_bind1 [OF StructType_fuel])
    apply (simp only: split_paired_all prod.case)
    apply (drule st)
    apply (rule good_if)
     apply (rule good_bind1 [OF deref_fuel])
     apply (rule good_bind1 [OF MapType_fuel])
     apply (simp only: split_paired_all prod.case)
     apply (frule (1) mt, simp)
     apply (rule good_bind1 [OF tag])
     apply (rule good_bind3 [where v = v])
      apply (rule rec [OF _ mode], simp)
     apply (rule rec [OF _ mode], simp)
    apply (rule good_if)
     apply (rule good_bind3 [where v = v])
      apply (rule ff, simp)
     apply simp
    apply (rule good_bind3 [where v = v])
     apply (rule sf, simp)
    apply simp
    done
qed

lemma sconv2_ret_good: "good (and_then (sconv2 E b s verb mode) (\<lambda>b. Inr (b, v, p))) v"
  by (rule good_bind1 [OF sconv2_fuel]) simp

lemma sconv2_ret2_good: "good (and_then (sconv2 E b s verb mode) (\<lambda>b. Inr (b @ c, v, p))) v"
  by (rule good_bind1 [OF sconv2_fuel]) simp

lemma tconv2_switch_good:
  assumes rec: "\<And>p b t verb mode. okptr R t \<Longrightarrow> mode \<noteq> fmtDebug \<Longrightarrow> good (rec p b t verb mode v) v"
    and cl: "closed E R" and a: "a \<in> R" and mode: "mode \<noteq> fmtDebug"
  shows "good (tconv2_switch rec E p b a verb mode v) v"
proof -
  have el: "okptr R e" if "Elem (types E a) = Inr e" for e
    using cl a Elem_refs [OF that] by (rule closedD)
  have mt: "okptr R k \<and> okptr R e" if "MapType (types E a) = Inr (k, e, bk, hm, hi)" for k e bk hm hi
    using MapType_refs [OF that] closedD [OF cl a] by blast
  have un: "good (union_terms rec i q c ts mode v) v" if "extra (types E a) = UnionT ts" for i q c ts
  proof -
    from that have "set (map fst ts) \<subseteq> set (refs (types E a))"
      by (auto simp: refs_def)
    with closedD [OF cl a] have "list_all (okptr R) (map fst ts)"
      by (auto simp: list_all_iff)
    with rec mode show ?thesis by (rule union_terms_good)
  qed
  have chan: "good (tconv2_chan rec E q c (types E a) mode v) v" for q c
    using rec cl a mode by (rule tconv2_chan_good)
  have inter: "good (tconv2_inter rec E q c (types E a) mode v) v" for q c
    using rec cl a mode by (rule tconv2_inter_good)
  have func: "good (tconv2_func rec E q c (types E a) vb mode v) v" for q c vb
    using rec cl a mode by (rule tconv2_func_good)
  have struct: "good (tconv2_struct rec E q c a mode v) v" for q c
    using rec cl a mode by (rule tconv2_struct_good)
  show ?thesis
    unfolding tconv2_switch_def Let_def
    apply (intro good_if)
                apply (rule good_bind1 [OF Elem_fuel])
                apply (drule el)
                apply (rule good_if)
                 apply (erule rec [OF _ mode])
                apply (erule rec [OF _ mode])
               apply (rule good_bind1 [OF NumElem_fuel])
               apply (rule good_bind1 [OF Elem_fuel])
               apply (drule el)
               apply (erule rec [OF _ mode])
              apply (rule good_bind1 [OF Elem_fuel])
              apply (drule el)
              apply (erule rec [OF _ mode])
             apply (rule chan)
            apply (rule good_bind1 [OF MapType_fuel])
            apply (simp only: split_paired_all prod.case)
            apply (drule mt)
            apply (rule good_bind3 [where v = v])
             apply (rule rec [OF _ mode], simp)
            apply (rule rec [OF _ mode], simp)
           apply (rule inter)
          apply (rule func)
         apply (rule struct)
        apply (simp split: option.splits add: sconv2_ret_good)
       apply simp
      apply (simp split: option.splits add: sconv2_ret_good)
     apply (simp split: Extra.splits add: un)
    apply simp
    apply (rule sconv2_ret2_good)
    done
qed

lemma unvisited_mark:
  assumes "finite R" and "a \<in> R" and "visited_lookup vis (Some a) = None"
  shows "unvisited R (Some ((case vis of None \<Rightarrow> Map.empty | Some m \<Rightarrow> m)(Some a \<mapsto> l)))
           < unvisited R vis"
proof -
  define S where "S = {x \<in> R. visited_lookup vis (Some x) = None}"
  define S1 where "S1 = {x \<in> R. visited_lookup
      (Some ((case vis of None \<Rightarrow> Map.empty | Some m \<Rightarrow> m)(Some a \<mapsto> l))) (Some x) = None}"
  have eq: "S1 = S - {a}"
    unfolding S_def S1_def
    by (auto simp: visited_lookup_def split: option.splits if_splits)
  have mem: "a \<in> S"
    using assms by (simp add: S_def)
  have fin: "finite S"
    using assms(1) by (simp add: S_def)
  from fin mem have "card (S - {a}) < card S"
    by (rule card_Diff1_less)
  then have "card S1 < card S"
    by (simp only: eq)
  then show ?thesis
    by (simp only: unvisited_def S_def S1_def)
qed

lemma tconv2_tail_basic:
  assumes "case t of None \<Rightarrow> True | Some a \<Rightarrow> BasicTypeNames (kind (types E a)) \<noteq> ''''"
  shows "good (tconv2_tail rec E p b t verb mode vis) vis"
proof (cases t)
  case None
  then show ?thesis by (simp add: tconv2_tail_def)
next
  case (Some a)
  have "good (and_then (tconv2_named E b ty sy verb mode) (\<lambda>b. Inr (b, vis, p))) vis" for ty sy
    by (rule good_bind1 [OF tconv2_named_fuel]) simp
  with Some assms show ?thesis
    by (simp add: tconv2_tail_def Let_def split: option.splits)
qed

lemma tconv2_tail_good:
  assumes cl: "closed E R" and a: "a \<in> R"
    and nv: "visited_lookup vis (Some a) = None"
    and dbg: "mode = fmtDebug \<Longrightarrow>
        good (rec p (b @ KindString E (kind (types E a)) @ ''-'') (Some a) verb_v fmtGo vis) vis"
    and ch: "\<And>q c t vb md. mode \<noteq> fmtDebug \<Longrightarrow> okptr R t \<Longrightarrow> md \<noteq> fmtDebug \<Longrightarrow>
        good (rec q c t vb md (Some ((case vis of None \<Rightarrow> Map.empty | Some m \<Rightarrow> m)(Some a \<mapsto> length b))))
          (Some ((case vis of None \<Rightarrow> Map.empty | Some m \<Rightarrow> m)(Some a \<mapsto> length b)))"
  shows "good (tconv2_tail rec E p b (Some a) verb mode vis) vis"
proof -
  let ?v1 = "Some ((case vis of None \<Rightarrow> Map.empty | Some m \<Rightarrow> m)(Some a \<mapsto> length b))"
  have named: "good (and_then (tconv2_named E b ty sy verb mode) (\<lambda>b. Inr (b, vis, p))) vis" for ty sy
    by (rule good_bind1 [OF tconv2_named_fuel]) simp
  have sw: "good (tconv2_switch rec E p b a verb mode ?v1) ?v1" if md: "mode \<noteq> fmtDebug"
  proof (rule tconv2_switch_good [where R = R])
    show "good (rec q c t vb m ?v1) ?v1" if "okptr R t" and "m \<noteq> fmtDebug" for q c t vb m
      using md that by (rule ch)
  qed (use cl a md in auto)
  have restore: "(case vis of None \<Rightarrow> None
                  | Some m0 \<Rightarrow> map_option (\<lambda>m. m(Some a := None)) ?v1) = vis"
    using nv by (cases vis) (auto simp: visited_lookup_def fun_upd_idem)
  have fin: "good (and_then (tconv2_switch rec E p b a verb mode ?v1) (\<lambda>(b, vis', p).
                 Inr (b, (case vis of None \<Rightarrow> None
                          | Some m0 \<Rightarrow> map_option (\<lambda>m. m(Some a := None)) vis'), p))) vis"
    if "mode \<noteq> fmtDebug"
    by (rule good_bind3 [OF sw [OF that]]) (simp add: restore)
  show ?thesis
    unfolding tconv2_tail_def option.case Let_def
    apply (intro good_if)
        apply simp
       apply (simp split: option.splits add: named)
      apply simp
     apply (erule dbg)
    apply (erule fin)
    done
qed

lemma unvisited_le: "finite R \<Longrightarrow> unvisited R vis \<le> card R"
  unfolding unvisited_def by (rule card_mono) auto

text \<open>
  Termination. The types of rank at most \<open>l\<close> are again a closed set, so the pieces above
  apply to them; a tuple or a result list starts each of its elements from an empty
  \<^verbatim>\<open>visited\<close>, one rank lower.
\<close>

lemma rankedD:
  "ranked E R lv \<Longrightarrow> a \<in> R \<Longrightarrow> Some a' \<in> set (refs (types E a)) \<Longrightarrow>
     (if kind (types E a) = TTUPLE \<or> kind (types E a) = TRESULTS
      then lv a' < lv a else lv a' \<le> lv a)"
  unfolding ranked_def list_all_iff by (drule (1) bspec) (drule (1) bspec, simp)

lemma closed_below:
  assumes cl: "closed E R" and rk: "ranked E R lv"
  shows "closed E {x \<in> R. lv x \<le> l}"
  unfolding closed_def list_all_iff
proof (intro ballI)
  fix a q assume a: "a \<in> {x \<in> R. lv x \<le> l}" and q: "q \<in> set (refs (types E a))"
  from a have aR: "a \<in> R" and la: "lv a \<le> l" by auto
  from cl aR q have ok: "okptr R q" by (rule closedD)
  show "okptr {x \<in> R. lv x \<le> l} q"
  proof (cases q)
    case None then show ?thesis by (simp add: okptr_def)
  next
    case (Some a')
    with rankedD [OF rk aR, of a'] q have "lv a' \<le> lv a"
      by (auto split: if_splits)
    with ok Some la show ?thesis by (simp add: okptr_def)
  qed
qed

lemma tconv2_nil: "tconv2 (Suc k) E p b None verb mode None = Inr (b @ ''<T>'', None, p)"
  by (simp add: tconv2_body_def visited_lookup_def)

lemma String_with_fuel:
  assumes "\<And>q c. good (rec q c x 0 fmtGo None) None"
  shows "String_with rec p x \<noteq> Inl OutOfFuel"
proof -
  obtain buf p1 where g: "pool_Get p = (buf, p1)" by (cases "pool_Get p")
  from assms [of p1 "Reset buf"] show ?thesis
    by (cases "rec p1 (Reset buf) x 0 fmtGo None")
       (auto simp: String_with_def tconv_with_def g)
qed

lemma results_loop_fuel:
  assumes "\<And>x q c. x \<in> set ts \<Longrightarrow> good (rec q c x 0 fmtGo None) None"
  shows "results_loop rec i p b ts \<noteq> Inl OutOfFuel"
  using assms
proof (induction ts arbitrary: i p b)
  case Nil
  show ?case by simp
next
  case (Cons et tys)
  have s: "String_with rec p et \<noteq> Inl OutOfFuel"
    by (rule String_with_fuel) (rule Cons.prems, simp)
  have r: "results_loop rec j q c tys \<noteq> Inl OutOfFuel" for j q c
    by (rule Cons.IH) (rule Cons.prems, simp)
  from s r show ?case
    by (cases "String_with rec p et") (auto simp: Let_def)
qed

lemma FieldType_refs: "FieldType t i = Inr x \<Longrightarrow> x \<in> set (refs t)"
  by (auto simp: FieldType_def refs_def split: if_splits Extra.splits)

lemma FieldType_fuel [simp]: "FieldType t i \<noteq> Inl OutOfFuel"
  by (simp add: FieldType_def split: Extra.splits)

lemma tconv2_good:
  assumes fin: "finite R" and cl: "closed E R" and rk: "ranked E R lv" and al: "alias_basic E"
  shows "okptr {x \<in> R. lv x \<le> l} t
    \<Longrightarrow> l * (card R + 2) + unvisited R vis + (if mode = fmtDebug then 1 else 0) < n
    \<Longrightarrow> good (tconv2 n E p b t verb mode vis) vis"
proof (induction n arbitrary: l t vis mode p b verb)
  case 0
  then show ?case by simp
next
  case (Suc n)
  let ?R = "{x \<in> R. lv x \<le> l}"
  have cl': "closed E ?R" using cl rk by (rule closed_below)
  show ?case
  proof (cases "visited_lookup vis t")
    case (Some off)
    then show ?thesis by (simp add: tconv2_body_def)
  next
    case None
    note nv = None
    show ?thesis
    proof (cases t)
      case None
      with nv show ?thesis by (simp add: tconv2_body_def)
    next
      case (Some a)
      with Suc.prems(1) have a': "a \<in> ?R" by (simp add: okptr_def)
      then have a: "a \<in> R" and la: "lv a \<le> l" by auto
      from nv Some have nva: "visited_lookup vis (Some a) = None" by simp
      have pos: "0 < unvisited R vis"
      proof -
        have "a \<in> {x \<in> R. visited_lookup vis (Some x) = None}" using a nva by simp
        moreover have "finite {x \<in> R. visited_lookup vis (Some x) = None}" using fin by simp
        ultimately show ?thesis unfolding unvisited_def by (auto simp: card_gt_0_iff)
      qed
      have elem: "good (tconv2 n E q c x 0 fmtGo None) None"
        if tup: "kind (types E a) = TTUPLE \<or> kind (types E a) = TRESULTS"
          and x: "x \<in> set (refs (types E a))" for x q c
      proof (cases x)
        case None
        from pos Suc.prems(2) obtain k where "n = Suc k" by (cases n) auto
        with None show ?thesis by (simp only: tconv2_nil good_simps)
      next
        case (Some a1)
        from cl a x have "okptr R x" by (rule closedD)
        with Some have a1: "a1 \<in> R" by (simp add: okptr_def)
        from rankedD [OF rk a, of a1] x Some tup have lt: "lv a1 < lv a" by auto
        with la obtain l1 where l: "l = Suc l1" and l1: "lv a1 \<le> l1" by (cases l) auto
        show ?thesis
          unfolding Some
        proof (rule Suc.IH [where l = l1])
          show "okptr {x \<in> R. lv x \<le> l1} (Some a1)" using a1 l1 by (simp add: okptr_def)
          have "unvisited R None \<le> card R" using fin by (rule unvisited_le)
          with Suc.prems(2) l
          show "l1 * (card R + 2) + unvisited R None + (if fmtGo = fmtDebug then 1 else 0) < n"
            by simp
        qed
      qed
      have tuple: "good (tconv2_body (tconv2 n E) E p b (Some a) verb mode vis) vis"
        if k: "kind (types E a) = TTUPLE"
      proof -
        have s: "String_with (tconv2 n E) q x \<noteq> Inl OutOfFuel"
          if "FieldType (types E a) i = Inr x" for q x i
          by (rule String_with_fuel) (rule elem, simp add: k, rule FieldType_refs [OF that])
        show ?thesis
          using nva k
          apply (simp add: tconv2_body_def Let_def)
          apply (rule good_bind1 [OF FieldType_fuel])
          apply (rule good_bind2)
           apply (erule s)
          apply (rule good_bind1 [OF FieldType_fuel])
          apply (rule good_bind2)
           apply (erule s)
          apply simp
          done
      qed
      have results: "good (tconv2_body (tconv2 n E) E p b (Some a) verb mode vis) vis"
        if k: "kind (types E a) = TRESULTS"
      proof (cases "extra (types E a)")
        case (Results tys)
        have "results_loop (tconv2 n E) 0 p b tys \<noteq> Inl OutOfFuel"
          by (rule results_loop_fuel) (rule elem, simp add: k, simp add: refs_def Results)
        then have "good (and_then (results_loop (tconv2 n E) 0 p b tys) (\<lambda>(b, p). Inr (b, vis, p))) vis"
          by (rule good_bind2) simp
        with nva k Results show ?thesis
          by (simp add: tconv2_body_def Let_def)
      qed (use nva k in \<open>simp_all add: tconv2_body_def Let_def\<close>)
      have byte_rune: "good (tconv2_tail (tconv2 n E) E p b (Types E (kind (types E a))) verb mode vis) vis"
        if "Some a = ByteType E \<or> Some a = RuneType E"
      proof (rule tconv2_tail_basic)
        from al that
        show "case Types E (kind (types E a)) of None \<Rightarrow> True
              | Some a' \<Rightarrow> BasicTypeNames (kind (types E a')) \<noteq> ''''"
          by (auto simp: alias_basic_def split: option.splits)
      qed
      have tail: "good (tconv2_tail (tconv2 n E) E p b (Some a) verb mode vis) vis"
      proof (rule tconv2_tail_good [OF cl' a' nva])
        assume d: "mode = fmtDebug"
        show "good (tconv2 n E p (b @ KindString E (kind (types E a)) @ ''-'') (Some a) verb_v fmtGo vis) vis"
        proof (rule Suc.IH [where l = l])
          show "okptr ?R (Some a)" using a' by (simp add: okptr_def)
          show "l * (card R + 2) + unvisited R vis + (if fmtGo = fmtDebug then 1 else 0) < n"
            using Suc.prems(2) d by simp
        qed
      next
        fix q c t' vb md
        let ?v1 = "Some ((case vis of None \<Rightarrow> Map.empty | Some m \<Rightarrow> m)(Some a \<mapsto> length b))"
        assume "mode \<noteq> fmtDebug" and ok: "okptr ?R t'" and md: "md \<noteq> fmtDebug"
        show "good (tconv2 n E q c t' vb md ?v1) ?v1"
        proof (rule Suc.IH [where l = l, OF ok])
          have "unvisited R ?v1 < unvisited R vis"
            using fin a nva by (rule unvisited_mark)
          with Suc.prems(2) md
          show "l * (card R + 2) + unvisited R ?v1 + (if md = fmtDebug then 1 else 0) < n"
            by simp
        qed
      qed
      consider "kind (types E a) = TTUPLE" | "kind (types E a) = TRESULTS"
        | "kind (types E a) \<noteq> TTUPLE" "kind (types E a) \<noteq> TRESULTS" by blast
      then show ?thesis
      proof cases
        case 1
        with tuple Some show ?thesis by simp
      next
        case 2
        with results Some show ?thesis by simp
      next
        case 3
        with nva Some byte_rune tail show ?thesis
          by (simp add: tconv2_body_def Let_def sconv2_ret_good split: Extra.splits)
      qed
    qed
  qed
qed

lemma tconv2_terminates:
  assumes "finite R" and "closed E R" and "ranked E R lv" and "alias_basic E" and "okptr R t"
    and "\<forall>a\<in>R. lv a \<le> l" and "(l + 1) * (card R + 2) \<le> n"
  shows "good (tconv2 n E p b t verb mode vis) vis"
proof (rule tconv2_good [OF assms(1-4), where l = l])
  show "okptr {x \<in> R. lv x \<le> l} t"
    using assms(5,6) by (cases t) (auto simp: okptr_def)
  from unvisited_le [OF assms(1), of vis] assms(7)
  show "l * (card R + 2) + unvisited R vis + (if mode = fmtDebug then 1 else 0) < n"
    by simp
qed

text \<open>The cycle through the tuple at 12 and the pointer at 13 never ends.\<close>

lemma tuple_cycle_diverges:
  "(\<forall>p b verb mode vis. visited_lookup vis (Some 12) = None \<longrightarrow>
       tconv2 n ex_env p b (Some 12) verb mode vis = Inl OutOfFuel)
   \<and> (\<forall>p b verb. tconv2 n ex_env p b (Some 13) verb fmtGo None = Inl OutOfFuel)"
proof (induction n)
  case 0
  show ?case by simp
next
  case (Suc n)
  have t12: "tconv2 (Suc n) ex_env p b (Some 12) verb mode vis = Inl OutOfFuel"
    if "visited_lookup vis (Some 12) = None" for p b verb mode vis
    using that Suc
    by (simp add: tconv2_body_def ex_defs FieldType_def String_with_def tconv_with_def
          split: prod.splits)
  have t13: "tconv2 (Suc n) ex_env p b (Some 13) verb fmtGo None = Inl OutOfFuel" for p b verb
  proof -
    have "tconv2 n ex_env p (b @ ''*'') (Some 12) vb fmtGo (Some [Some 13 \<mapsto> length b]) = Inl OutOfFuel" for vb
      using Suc by (simp add: visited_lookup_def)
    then show ?thesis
      by (simp add: render_defs ex_defs Let_def)
  qed
  from t12 t13 show ?case by blast
qed

text \<open>
  A struct whose only field points back to it. One run of the body on the pointer, and
  one on the struct, with the inner renderer left open.
\<close>

lemma tconv2_seen:
  "visited_lookup vis t = Some off \<Longrightarrow>
   tconv2 (Suc k) E p b t verb mode vis = Inr (b @ ''@'' @ FormatInt (int off), vis, p)"
  by (simp add: tconv2_body_def)

lemma tconv2_debug_struct:
  assumes "kind (types E a) = TSTRUCT" and "visited_lookup vis (Some a) = None"
    and "Some a \<notin> {ByteType E, RuneType E, ErrorType E}"
    and "sym (types E a) = None \<or> Types E TSTRUCT = Some a"
  shows "tconv2 (Suc k) E p b (Some a) verb fmtDebug vis
      = tconv2 k E p (b @ KindString E TSTRUCT @ ''-'') (Some a) verb_v fmtGo vis"
  using assms
  by (auto simp: tconv2_body_def tconv2_tail_def BasicTypeNames_def Let_def)

lemma tconv2_body_pointer:
  assumes "kind (types E pa) = TPTR" and "extra (types E pa) = Ptr (Some a)"
    and "Some pa \<notin> {ByteType E, RuneType E, ErrorType E}"
    and "sym (types E pa) = None \<or> Types E TPTR = Some pa"
    and "mode \<noteq> fmtDebug" and "m1 (Some pa) = None"
    and rec: "\<And>vb. rec q (c @ ''*'') (Some a) vb mode (Some (m1(Some pa \<mapsto> length c)))
                = Inr (c @ ''*'' @ x, Some (m1(Some pa \<mapsto> length c)), q)"
  shows "tconv2_body rec E q c (Some pa) 0 mode (Some m1) = Inr (c @ ''*'' @ x, Some m1, q)"
  using assms(1-6)
  by (elim disjE;
      simp add: tconv2_body_def tconv2_tail_def tconv2_switch_def Elem_def BasicTypeNames_def
        Let_def visited_lookup_def rec fun_upd_idem)

lemma tconv2_body_struct:
  assumes "kind (types E a) = TSTRUCT" and "extra (types E a) = Struct [Some f] None FunargNone"
    and "visited_lookup vis (Some a) = None"
    and "Some a \<notin> {ByteType E, RuneType E, ErrorType E}"
    and "verb = verb_L \<or> sym (types E a) = None \<or> Types E TSTRUCT = Some a"
    and "mode \<noteq> fmtDebug"
    and rec: "\<And>q c.
       (if fld_IsDDD f then
          and_then (case fld_Type f of None \<Rightarrow> Inr None | Some a \<Rightarrow> Elem (types E a))
            (\<lambda>et. rec q (c @ ''...'') et 0 mode
               (Some ((case vis of None \<Rightarrow> Map.empty | Some m \<Rightarrow> m)(Some a \<mapsto> length b))))
        else rec q c (fld_Type f) 0 mode
               (Some ((case vis of None \<Rightarrow> Map.empty | Some m \<Rightarrow> m)(Some a \<mapsto> length b))))
       = Inr (c @ x, Some ((case vis of None \<Rightarrow> Map.empty | Some m \<Rightarrow> m)(Some a \<mapsto> length b)), q)"
  shows "tconv2_body rec E p b (Some a) verb mode vis =
     and_then (fldconv_name E p f verb_L mode FunargNone) (\<lambda>(name, p1).
       Inr (b @ ''struct { '' @ (if name \<noteq> '''' then name @ '' '' else '''') @ x
              @ (if fld_Note f \<noteq> '''' then '' '' @ Quote E (fld_Note f) else '''') @ '' }'',
            vis, p1))"
proof -
  have restore: "(case vis of None \<Rightarrow> None
                  | Some m0 \<Rightarrow> map_option (\<lambda>m. m(Some a := None))
                       (Some ((case vis of None \<Rightarrow> Map.empty | Some m \<Rightarrow> m)
                                (Some a \<mapsto> length b)))) = vis"
    using assms(3) by (cases vis) (auto simp: visited_lookup_def fun_upd_idem)
  show ?thesis
  proof (cases "fldconv_name E p f verb_L mode FunargNone")
    case (Inl e)
    with assms(1-6) show ?thesis
      by (elim disjE;
          simp add: tconv2_body_def tconv2_tail_def tconv2_switch_def tconv2_struct_def
            StructType_def fldconv_def BasicTypeNames_def Let_def)
  next
    case (Inr r)
    obtain name p1 where r: "r = (name, p1)" by (cases r)
    with Inr assms(1-6) show ?thesis
      by (elim disjE;
          simp add: tconv2_body_def tconv2_tail_def tconv2_switch_def tconv2_struct_def
            StructType_def fldconv_def BasicTypeNames_def Let_def rec restore)
  qed
qed

lemma self_pointer_core:
  assumes st: "kind (types E a) = TSTRUCT"
      "extra (types E a) = Struct [Some f] None FunargNone"
    and fl: "fld_Type f = Some pa"
    and pt: "kind (types E pa) = TPTR" "extra (types E pa) = Ptr (Some a)"
    and nv: "visited_lookup vis (Some a) = None"
    and sp: "Some a \<notin> {ByteType E, RuneType E, ErrorType E}"
    and by_structure: "verb = verb_L \<or> sym (types E a) = None \<or> Types E TSTRUCT = Some a"
    and md: "mode \<noteq> fmtDebug"
    and fld: "fld_IsDDD f \<or> visited_lookup vis (Some pa) \<noteq> None
         \<or> Some pa \<notin> {ByteType E, RuneType E, ErrorType E}
           \<and> (sym (types E pa) = None \<or> Types E TPTR = Some pa)"
  shows "tconv2 (Suc (Suc (Suc n))) E p b (Some a) verb mode vis =
     and_then (fldconv_name E p f verb_L mode FunargNone) (\<lambda>(name, p1).
       Inr (b @ ''struct { '' @ (if name \<noteq> '''' then name @ '' '' else '''')
              @ (if fld_IsDDD f then ''...@'' @ FormatInt (int (length b))
                 else case visited_lookup vis (Some pa) of
                        Some off \<Rightarrow> ''@'' @ FormatInt (int off)
                      | None \<Rightarrow> ''*@'' @ FormatInt (int (length b)))
              @ (if fld_Note f \<noteq> '''' then '' '' @ Quote E (fld_Note f) else '''') @ '' }'',
            vis, p1))"
proof -
  let ?m = "(case vis of None \<Rightarrow> Map.empty | Some m \<Rightarrow> m)(Some a \<mapsto> length b)"
  let ?x = "if fld_IsDDD f then ''...@'' @ FormatInt (int (length b))
            else case visited_lookup vis (Some pa) of
                   Some off \<Rightarrow> ''@'' @ FormatInt (int off)
                 | None \<Rightarrow> ''*@'' @ FormatInt (int (length b))"
  have ne: "pa \<noteq> a" using st(1) pt(1) by auto
  have seen_a: "tconv2 (Suc k) E q c (Some a) vb mode (Some (?m(Some pa \<mapsto> l)))
      = Inr (c @ ''@'' @ FormatInt (int (length b)), Some (?m(Some pa \<mapsto> l)), q)" for k q c vb l
    by (rule tconv2_seen) (simp add: visited_lookup_def ne ne [symmetric])
  have seen_a': "tconv2 (Suc k) E q c (Some a) vb mode (Some ?m)
      = Inr (c @ ''@'' @ FormatInt (int (length b)), Some ?m, q)" for k q c vb
    by (rule tconv2_seen) (simp add: visited_lookup_def)
  have look: "visited_lookup (Some ?m) (Some pa) = visited_lookup vis (Some pa)"
    using ne by (cases vis) (simp_all add: visited_lookup_def)
  have field_type:
    "(if fld_IsDDD f then
        and_then (case fld_Type f of None \<Rightarrow> Inr None | Some a \<Rightarrow> Elem (types E a))
          (\<lambda>et. tconv2 (Suc (Suc n)) E q (c @ ''...'') et 0 mode (Some ?m))
      else tconv2 (Suc (Suc n)) E q c (fld_Type f) 0 mode (Some ?m))
     = Inr (c @ ?x, Some ?m, q)" for q c
  proof -
    consider (ddd) "fld_IsDDD f"
      | (seen) off where "\<not> fld_IsDDD f" "visited_lookup vis (Some pa) = Some off"
      | (fresh) "\<not> fld_IsDDD f" "visited_lookup vis (Some pa) = None"
          "Some pa \<notin> {ByteType E, RuneType E, ErrorType E}"
          "sym (types E pa) = None \<or> Types E TPTR = Some pa"
      using fld by (cases "visited_lookup vis (Some pa)") auto
    then show ?thesis
    proof cases
      case ddd
      have "Elem (types E pa) = Inr (Some a)" by (simp add: Elem_def pt)
      with ddd show ?thesis
        by (simp del: tconv2.simps add: fl seen_a')
    next
      case seen
      from seen(2) look have "visited_lookup (Some ?m) (Some pa) = Some off" by simp
      then have "tconv2 (Suc (Suc n)) E q c (Some pa) 0 mode (Some ?m)
          = Inr (c @ ''@'' @ FormatInt (int off), Some ?m, q)"
        by (rule tconv2_seen)
      with seen show ?thesis by (simp del: tconv2.simps add: fl)
    next
      case fresh
      from fresh(2) look have "?m (Some pa) = None" by (simp add: visited_lookup_def)
      with pt fresh(3,4) md
      have "tconv2_body (tconv2 (Suc n) E) E q c (Some pa) 0 mode (Some ?m)
          = Inr (c @ ''*'' @ ''@'' @ FormatInt (int (length b)), Some ?m, q)"
        by (rule tconv2_body_pointer) (simp only: seen_a append_assoc)
      then have "tconv2 (Suc (Suc n)) E q c (Some pa) 0 mode (Some ?m)
          = Inr (c @ ''*@'' @ FormatInt (int (length b)), Some ?m, q)"
        by simp
      with fresh show ?thesis by (simp del: tconv2.simps add: fl)
    qed
  qed
  have "tconv2_body (tconv2 (Suc (Suc n)) E) E p b (Some a) verb mode vis =
     and_then (fldconv_name E p f verb_L mode FunargNone) (\<lambda>(name, p1).
       Inr (b @ ''struct { '' @ (if name \<noteq> '''' then name @ '' '' else '''') @ ?x
              @ (if fld_Note f \<noteq> '''' then '' '' @ Quote E (fld_Note f) else '''') @ '' }'',
            vis, p1))"
    using st nv sp by_structure md by (rule tconv2_body_struct) (rule field_type)
  then show ?thesis by (simp only: tconv2.simps)
qed

lemma self_pointer_struct:
  assumes "kind (types E a) = TSTRUCT" and "extra (types E a) = Struct [Some f] None FunargNone"
    and "fld_Type f = Some pa"
    and "kind (types E pa) = TPTR" and "extra (types E pa) = Ptr (Some a)"
    and "visited_lookup vis (Some a) = None"
    and "Some a \<notin> {ByteType E, RuneType E, ErrorType E}"
    and "verb = verb_L \<and> mode \<noteq> fmtDebug \<or> sym (types E a) = None \<or> Types E TSTRUCT = Some a"
    and "fld_IsDDD f \<or> visited_lookup vis (Some pa) \<noteq> None
         \<or> Some pa \<notin> {ByteType E, RuneType E, ErrorType E}
           \<and> (sym (types E pa) = None \<or> Types E TPTR = Some pa)"
  shows "tconv2 (Suc (Suc (Suc (Suc n)))) E p b (Some a) verb mode vis =
     (let b0 = (if mode = fmtDebug then b @ KindString E TSTRUCT @ ''-'' else b);
          md = (if mode = fmtDebug then fmtGo else mode)
      in and_then (fldconv_name E p f verb_L md FunargNone) (\<lambda>(name, p1).
           Inr (b0 @ ''struct { '' @ (if name \<noteq> '''' then name @ '' '' else '''')
                  @ (if fld_IsDDD f then ''...@'' @ FormatInt (int (length b0))
                     else case visited_lookup vis (Some pa) of
                            Some off \<Rightarrow> ''@'' @ FormatInt (int off)
                          | None \<Rightarrow> ''*@'' @ FormatInt (int (length b0)))
                  @ (if fld_Note f \<noteq> '''' then '' '' @ Quote E (fld_Note f) else '''')
                  @ '' }'',
                vis, p1)))"
proof (cases "mode = fmtDebug")
  case False
  with assms(8) have s: "verb = verb_L \<or> sym (types E a) = None \<or> Types E TSTRUCT = Some a"
    by blast
  show ?thesis
    unfolding Let_def if_not_P [OF False]
    using assms(1-7) s False assms(9) by (rule self_pointer_core)
next
  case True
  with assms(8) have s: "sym (types E a) = None \<or> Types E TSTRUCT = Some a" by blast
  then have s': "verb_v = verb_L \<or> sym (types E a) = None \<or> Types E TSTRUCT = Some a"
    by blast
  have go: "fmtGo \<noteq> fmtDebug" by simp
  have "tconv2 (Suc (Suc (Suc (Suc n)))) E p b (Some a) verb fmtDebug vis
      = tconv2 (Suc (Suc (Suc n))) E p (b @ KindString E TSTRUCT @ ''-'') (Some a) verb_v fmtGo vis"
    using assms(1,6,7) s by (rule tconv2_debug_struct)
  also have "\<dots> = and_then (fldconv_name E p f verb_L fmtGo FunargNone) (\<lambda>(name, p1).
       Inr ((b @ KindString E TSTRUCT @ ''-'') @ ''struct { ''
              @ (if name \<noteq> '''' then name @ '' '' else '''')
              @ (if fld_IsDDD f then ''...@'' @ FormatInt (int (length (b @ KindString E TSTRUCT @ ''-'')))
                 else case visited_lookup vis (Some pa) of
                        Some off \<Rightarrow> ''@'' @ FormatInt (int off)
                      | None \<Rightarrow> ''*@'' @ FormatInt (int (length (b @ KindString E TSTRUCT @ ''-''))))
              @ (if fld_Note f \<noteq> '''' then '' '' @ Quote E (fld_Note f) else '''') @ '' }'',
            vis, p1))"
    using assms(1-7) s' go assms(9) by (rule self_pointer_core)
  finally show ?thesis
    using True by (simp del: tconv2.simps add: Let_def)
qed

lemma good_iff:
  "good r v \<longleftrightarrow> r \<noteq> Inl OutOfFuel \<and> (\<forall>b' v' p'. r = Inr (b', v', p') \<longrightarrow> v' = v)"
  by (cases r) (auto simp: good_def)

lemma tconv_fuel:
  assumes "good (tconv2 n E (snd (pool_Get p)) [] t verb mode None) None"
  shows "tconv n E p t verb mode \<noteq> Inl OutOfFuel"
  using assms
  by (cases "tconv2 n E (snd (pool_Get p)) [] t verb mode None")
     (auto simp: tconv_def tconv_with_def Reset_def split: prod.splits)

text \<open>
  C2 (amended), in three parts.

  \<^item> The cycle check. If a type is already a key of \<^verbatim>\<open>visited\<close>, \<^verbatim>\<open>tconv2\<close> appends
    \<^verbatim>\<open>@N\<close>, where \<open>N\<close> is the offset stored for the type, and returns without a
    recursive call.
  \<^item> Termination. Let \<open>R\<close> be a finite set of types that is closed under the type
    pointers its types hold, and let no cycle of \<open>R\<close> pass through a tuple or a result
    list: there is a ranking \<open>lv\<close> of \<open>R\<close>, with values up to \<open>l\<close>, that does not increase
    from a type to a type it holds, and decreases from a tuple or a result list to each
    of its elements. Let the byte and rune aliases of the compilation stand for basic
    types. Then calls nested \<open>(l + 1) * (card R + 2)\<close> deep are enough for any type of
    \<open>R\<close> and for the null type, in every mode and verb and from any \<^verbatim>\<open>visited\<close>: the
    renderer returns a string or stops with a fault, and \<^verbatim>\<open>visited\<close> is as the caller
    had it. A graph without tuples and result lists has the ranking that is 0 everywhere.
  \<^item> The struct that points to itself. Let \<open>a\<close> be a struct that is not a parameter list
    and not a struct of a map's implementation, with one field \<open>f\<close>, whose type \<open>pa\<close> is a
    pointer type with element \<open>a\<close>. Let \<open>a\<close> not be in \<^verbatim>\<open>visited\<close>, be none of the byte
    alias, the rune alias and the error type, and be printed by structure: the verb is
    \<^verbatim>\<open>'L'\<close> and the mode is not debug, or \<open>a\<close> has no symbol, or \<open>a\<close> is
    \<^verbatim>\<open>Types[TSTRUCT]\<close>. Let the type of the field not be printed by a name: \<open>f\<close> is
    variadic, or \<open>pa\<close> is in \<^verbatim>\<open>visited\<close>, or \<open>pa\<close> is none of the three special types
    and has no symbol or is \<^verbatim>\<open>Types[TPTR]\<close>. Then with four nested calls or more the
    renderer writes, in debug mode after the name of the kind and a dash and from there
    on in display mode, \<^verbatim>\<open>struct {\<close>, the name of the field if it has one, the type of
    the field, the tag if there is one, and \<^verbatim>\<open>}\<close>. The type of the field is one back
    reference: \<^verbatim>\<open>...@N\<close> for a variadic field, \<^verbatim>\<open>@M\<close> if \<open>pa\<close> is in
    \<^verbatim>\<open>visited\<close> at \<open>M\<close>, and \<^verbatim>\<open>*@N\<close> otherwise, where \<open>N\<close> is the length of the
    buffer when the text of the struct begins. \<^verbatim>\<open>visited\<close> is as the caller had it.
\<close>

theorem tconv2_cycles:
  "(visited_lookup vis t = Some off \<longrightarrow>
      tconv2 (Suc n) E p b t verb mode vis = Inr (b @ ''@'' @ FormatInt (int off), vis, p))
   \<and> (finite R \<and> closed E R \<and> ranked E R lv \<and> (\<forall>x\<in>R. lv x \<le> l) \<and> alias_basic E
        \<and> okptr R t \<and> (l + 1) * (card R + 2) \<le> m \<longrightarrow>
        tconv2 m E p b t verb mode vis \<noteq> Inl OutOfFuel
        \<and> (\<forall>b' v' p'. tconv2 m E p b t verb mode vis = Inr (b', v', p') \<longrightarrow> v' = vis)
        \<and> tconv m E p t verb mode \<noteq> Inl OutOfFuel)
   \<and> (kind (types E a) = TSTRUCT \<and> extra (types E a) = Struct [Some f] None FunargNone
        \<and> fld_Type f = Some pa
        \<and> kind (types E pa) = TPTR \<and> extra (types E pa) = Ptr (Some a)
        \<and> visited_lookup vis' (Some a) = None
        \<and> Some a \<notin> {ByteType E, RuneType E, ErrorType E}
        \<and> (verb' = verb_L \<and> mode' \<noteq> fmtDebug
             \<or> sym (types E a) = None \<or> Types E TSTRUCT = Some a)
        \<and> (fld_IsDDD f \<or> visited_lookup vis' (Some pa) \<noteq> None
             \<or> Some pa \<notin> {ByteType E, RuneType E, ErrorType E}
               \<and> (sym (types E pa) = None \<or> Types E TPTR = Some pa)) \<longrightarrow>
        tconv2 (Suc (Suc (Suc (Suc n)))) E p b (Some a) verb' mode' vis' =
          (let b0 = (if mode' = fmtDebug then b @ KindString E TSTRUCT @ ''-'' else b);
               md = (if mode' = fmtDebug then fmtGo else mode')
           in and_then (fldconv_name E p f verb_L md FunargNone) (\<lambda>(name, p1).
                Inr (b0 @ ''struct { '' @ (if name \<noteq> '''' then name @ '' '' else '''')
                       @ (if fld_IsDDD f then ''...@'' @ FormatInt (int (length b0))
                          else case visited_lookup vis' (Some pa) of
                                 Some off \<Rightarrow> ''@'' @ FormatInt (int off)
                               | None \<Rightarrow> ''*@'' @ FormatInt (int (length b0)))
                       @ (if fld_Note f \<noteq> '''' then '' '' @ Quote E (fld_Note f) else '''')
                       @ '' }'',
                     vis', p1))))"
proof (intro conjI impI)
  assume "visited_lookup vis t = Some off"
  then show "tconv2 (Suc n) E p b t verb mode vis = Inr (b @ ''@'' @ FormatInt (int off), vis, p)"
    by (rule tconv2_seen)
next
  assume h: "finite R \<and> closed E R \<and> ranked E R lv \<and> (\<forall>x\<in>R. lv x \<le> l) \<and> alias_basic E
        \<and> okptr R t \<and> (l + 1) * (card R + 2) \<le> m"
  then have g: "good (tconv2 m E q c t verb mode w) w" for q c w
    by (elim conjE) (rule tconv2_terminates [of R E lv t l]; assumption)
  from g [of p b vis] show "tconv2 m E p b t verb mode vis \<noteq> Inl OutOfFuel"
    by (simp add: good_iff)
  from g [of p b vis] show "\<forall>b' v' p'. tconv2 m E p b t verb mode vis = Inr (b', v', p') \<longrightarrow> v' = vis"
    by (simp add: good_iff)
  from g show "tconv m E p t verb mode \<noteq> Inl OutOfFuel"
    by (rule tconv_fuel)
next
  assume "kind (types E a) = TSTRUCT \<and> extra (types E a) = Struct [Some f] None FunargNone
        \<and> fld_Type f = Some pa
        \<and> kind (types E pa) = TPTR \<and> extra (types E pa) = Ptr (Some a)
        \<and> visited_lookup vis' (Some a) = None
        \<and> Some a \<notin> {ByteType E, RuneType E, ErrorType E}
        \<and> (verb' = verb_L \<and> mode' \<noteq> fmtDebug
             \<or> sym (types E a) = None \<or> Types E TSTRUCT = Some a)
        \<and> (fld_IsDDD f \<or> visited_lookup vis' (Some pa) \<noteq> None
             \<or> Some pa \<notin> {ByteType E, RuneType E, ErrorType E}
               \<and> (sym (types E pa) = None \<or> Types E TPTR = Some pa))"
  then show "tconv2 (Suc (Suc (Suc (Suc n)))) E p b (Some a) verb' mode' vis' =
          (let b0 = (if mode' = fmtDebug then b @ KindString E TSTRUCT @ ''-'' else b);
               md = (if mode' = fmtDebug then fmtGo else mode')
           in and_then (fldconv_name E p f verb_L md FunargNone) (\<lambda>(name, p1).
                Inr (b0 @ ''struct { '' @ (if name \<noteq> '''' then name @ '' '' else '''')
                       @ (if fld_IsDDD f then ''...@'' @ FormatInt (int (length b0))
                          else case visited_lookup vis' (Some pa) of
                                 Some off \<Rightarrow> ''@'' @ FormatInt (int off)
                               | None \<Rightarrow> ''*@'' @ FormatInt (int (length b0)))
                       @ (if fld_Note f \<noteq> '''' then '' '' @ Quote E (fld_Note f) else '''')
                       @ '' }'',
                     vis', p1)))"
    by (elim conjE) (rule self_pointer_struct; assumption)
qed

text \<open>
  The cycle check inside the struct \<open>T\<close>. A graph with a tuple and a result list that
  are on no cycle: \<open>T\<close> and \<open>*T\<close>, the tuple at 20, the result list at 21 and what they
  hold, ranked 1 for the two synthetic types and 0 for the rest, so that sixteen nested
  calls are enough, for the result list and for \<open>T\<close> printed by structure in
  link-identity mode. Then the struct that points to itself: \<open>T\<close> with the verb
  \<^verbatim>\<open>'L'\<close>, the unnamed struct at 26 in debug mode, the variadic field of the struct at
  28 in link-identity mode, and the struct at 26 met while its pointer type is being
  printed.
\<close>

theorem tconv2_cycles_witness:
  "tconv2 (Suc 0) ex_env [] ''struct { next *'' (Some 10) verb_v fmtGo
       (Some [Some 10 \<mapsto> 0, Some 11 \<mapsto> 14])
     = Inr (''struct { next *@0'', Some [Some 10 \<mapsto> 0, Some 11 \<mapsto> 14], [])
   \<and> (1 + 1) * (card {0, 10, 11, 19, 20, 21 :: nat} + 2) \<le> 16
   \<and> tconv2 16 ex_env [] ''xy'' (Some 21) 0 fmtGo None \<noteq> Inl OutOfFuel
   \<and> tconv 16 ex_env [] (Some 21) 0 fmtGo \<noteq> Inl OutOfFuel
   \<and> tconv2 16 ex_env [] [] (Some 10) verb_L fmtTypeID None \<noteq> Inl OutOfFuel
   \<and> tconv 16 ex_env [] (Some 10) verb_L fmtTypeID \<noteq> Inl OutOfFuel
   \<and> tconv2 (Suc (Suc (Suc (Suc 0)))) ex_env [] ''xy'' (Some 10) verb_L fmtGo None
     = Inr (''xystruct { next *@2 }'', None, [])
   \<and> tconv2 (Suc (Suc (Suc (Suc 0)))) ex_env [] ''xy'' (Some 26) 0 fmtDebug None
     = Inr (''xySTRUCT-struct { next *@9 }'', None, [])
   \<and> tconv2 (Suc (Suc (Suc (Suc 0)))) ex_env [] [] (Some 28) 0 fmtTypeID None
     = Inr (''struct { \"\".rest ...@0 }'', None, [''\"\".rest''])
   \<and> tconv2 (Suc (Suc (Suc (Suc 0)))) ex_env [] [] (Some 26) 0 fmtGo (Some [Some 27 \<mapsto> 5])
     = Inr (''struct { next @5 }'', Some [Some 27 \<mapsto> 5], [])"
  using tconv2_cycles [where vis = "Some [Some 10 \<mapsto> 0, Some 11 \<mapsto> 14]" and t = "Some 10"
      and off = 0 and n = 0 and E = ex_env and p = "[]" and b = "''struct { next *''"
      and verb = verb_v and mode = fmtGo and R = "{}" and m = 2 and a = 0 and f = "field [] None"
      and pa = 0 and verb' = 0 and mode' = fmtGo and vis' = None and l = 0 and lv = "\<lambda>x. 0"]
    tconv2_cycles [where vis = None and t = "Some 21"
      and off = 0 and n = 0 and E = ex_env and p = "[]" and b = "''xy''"
      and verb = 0 and mode = fmtGo and R = "{0, 10, 11, 19, 20, 21}" and m = 16
      and l = 1 and lv = "\<lambda>x. if x = 20 \<or> x = 21 then 1 else 0" and a = 10
      and f = "field ''next'' (Some 11)"
      and pa = 11 and verb' = verb_L and mode' = fmtGo and vis' = None]
    tconv2_cycles [where vis = None and t = "Some 10"
      and off = 0 and n = 0 and E = ex_env and p = "[]" and b = "[]"
      and verb = verb_L and mode = fmtTypeID and R = "{0, 10, 11, 19, 20, 21}" and m = 16
      and l = 1 and lv = "\<lambda>x. if x = 20 \<or> x = 21 then 1 else 0" and a = 28
      and f = "(field ''rest'' (Some 29))\<lparr>fld_IsDDD := True\<rparr>"
      and pa = 29 and verb' = 0 and mode' = fmtTypeID and vis' = None]
    tconv2_cycles [where vis = None and t = "Some 21"
      and off = 0 and n = 0 and E = ex_env and p = "[]" and b = "''xy''"
      and verb = 0 and mode = fmtGo and R = "{}" and m = 16
      and l = 1 and lv = "\<lambda>x. 0" and a = 26
      and f = "field ''next'' (Some 27)"
      and pa = 27 and verb' = 0 and mode' = fmtDebug and vis' = None]
    tconv2_cycles [where vis = None and t = "Some 21"
      and off = 0 and n = 0 and E = ex_env and p = "[]" and b = "[]"
      and verb = 0 and mode = fmtGo and R = "{}" and m = 16
      and l = 1 and lv = "\<lambda>x. 0" and a = 26
      and f = "field ''next'' (Some 27)"
      and pa = 27 and verb' = 0 and mode' = fmtGo and vis' = "Some [Some 27 \<mapsto> 5]"]
  by (simp add: visited_lookup_def closed_def ranked_def alias_basic_def okptr_def refs_def
        field_types_def ex_defs BasicTypeNames_def fldconv_name_def OrigSym_def HasPrefix_def
        sconv_def sconv2_def symfmt_def pkgqual_def num_import_def pool_Get_def pool_Put_def
        Reset_def InternString_def Let_def FormatInt_eval)

text \<open>
  C2 as stated fails in two ways. A cycle through a tuple: the tuple at 12 holds the
  pointer type at 13, whose element is the tuple. The tuple renders its elements through
  \<^verbatim>\<open>String()\<close>, which starts from an empty \<^verbatim>\<open>visited\<close>, so the pointer is rendered
  afresh each time round, and no amount of nesting returns. And a struct whose only field
  is a pointer to it, with no back reference in its text: the struct at 24, whose field
  has the named pointer type \<open>P\<close>, prints as \<^verbatim>\<open>struct { next P }\<close>; the named struct
  \<open>T\<close> prints as \<open>T\<close> with the verb \<^verbatim>\<open>'v'\<close>, and as \<^verbatim>\<open>STRUCT-T\<close> in debug mode even
  with the verb \<^verbatim>\<open>'L'\<close>.
\<close>

theorem tconv2_cycles_counterexample:
  "finite {0, 12, 13 :: nat} \<and> closed ex_env {0, 12, 13} \<and> alias_basic ex_env
   \<and> (\<forall>n. tconv2 n ex_env [] [] (Some 12) 0 fmtGo None = Inl OutOfFuel)
   \<and> (\<forall>n. tconv n ex_env [] (Some 12) 0 fmtGo = Inl OutOfFuel)
   \<and> kind (types ex_env 24) = TSTRUCT
   \<and> extra (types ex_env 24) = Struct [Some (field ''next'' (Some 25))] None FunargNone
   \<and> kind (types ex_env 25) = TPTR \<and> extra (types ex_env 25) = Ptr (Some 24)
   \<and> tconv (Suc (Suc 0)) ex_env [] (Some 24) 0 fmtGo
       = Inr (''struct { next P }'', [''struct { next P }''])
   \<and> tconv (Suc 0) ex_env [] (Some 10) verb_v fmtGo = Inr (''T'', [''T''])
   \<and> tconv (Suc (Suc 0)) ex_env [] (Some 10) verb_L fmtDebug
       = Inr (''STRUCT-T'', [''STRUCT-T''])"
proof -
  have d: "tconv2 n ex_env p b (Some 12) verb mode None = Inl OutOfFuel" for n p b verb mode
    using tuple_cycle_diverges [of n] by (simp add: visited_lookup_def)
  have "tconv n ex_env [] (Some 12) 0 fmtGo = Inl OutOfFuel" for n
    by (simp add: tconv_def tconv_with_def d split: prod.splits)
  moreover have "closed ex_env {0, 12, 13}"
    by (simp add: closed_def refs_def field_types_def okptr_def ex_defs)
  moreover have "alias_basic ex_env"
    by (simp add: alias_basic_def ex_defs BasicTypeNames_def)
  moreover have "kind (types ex_env 24) = TSTRUCT
   \<and> extra (types ex_env 24) = Struct [Some (field ''next'' (Some 25))] None FunargNone
   \<and> kind (types ex_env 25) = TPTR \<and> extra (types ex_env 25) = Ptr (Some 24)
   \<and> tconv (Suc (Suc 0)) ex_env [] (Some 24) 0 fmtGo
       = Inr (''struct { next P }'', [''struct { next P }''])
   \<and> tconv (Suc 0) ex_env [] (Some 10) verb_v fmtGo = Inr (''T'', [''T''])
   \<and> tconv (Suc (Suc 0)) ex_env [] (Some 10) verb_L fmtDebug
       = Inr (''STRUCT-T'', [''STRUCT-T''])"
    by (simp add: render_defs ex_defs Let_def trim_sym_def dot_def isDigit_def FormatInt_eval)
  ultimately show ?thesis using d by simp
qed

text \<open>
  The condition on the aliases is needed. In link-identity mode the byte alias is replaced
  by \<^verbatim>\<open>Types[t.Kind()]\<close> after the cycle check; where that type is not basic and leads
  back to the alias, the type that is marked is never the one that is tested, and the
  rendering does not end.
\<close>

lemma alias_cycle_diverges:
  "visited_lookup vis (Some 30) = None
   \<Longrightarrow> tconv2 n alias_env p b (Some 30) verb fmtTypeID vis = Inl OutOfFuel"
proof (induction n arbitrary: p b verb vis)
  case 0
  show ?case by simp
next
  case (Suc n)
  let ?v1 = "Some ((case vis of None \<Rightarrow> Map.empty | Some m \<Rightarrow> m)(Some 31 \<mapsto> length b))"
  have "visited_lookup ?v1 (Some 30) = None"
    using Suc.prems by (cases vis) (simp_all add: visited_lookup_def)
  then have "tconv2 n alias_env p (b @ ''*'') (Some 30) vb fmtTypeID ?v1 = Inl OutOfFuel" for vb
    by (rule Suc.IH)
  with Suc.prems show ?case
    by (simp add: tconv2_body_def tconv2_tail_def tconv2_switch_def Elem_def BasicTypeNames_def
          alias_env_def ex_env_def unnamed_def Let_def)
qed

end
